(* ===== verification/Prelude.thy ===== *)
theory Prelude
  imports Main "HOL-Library.Word" "HOL-Library.Multiset"
begin

text \<open>
  Shared vocabulary of the development. Go's \<open>int\<close> on the 64-bit targets the
  query programs are built for is \<open>goint\<close>, a 64-bit word read as two's complement
  with \<open>sint\<close>; strings are byte lists (\<open>string\<close>); the two JSON caches
  \<open>map[string][]string\<close> become a partial map (segment to parse) and, where the
  Go code iterates over a map in an unspecified order, a list of entries in the order
  one run happened to visit them. Every \<open>log.Fatal\<close> of the code is a value of
  \<open>fatal\<close>. The lemmas here bridge word arithmetic and integer arithmetic and
  count filtered lists; the component theories use them through the collections
  \<open>goint_bridge\<close> and \<open>count_facts\<close>.
\<close>

type_synonym goint = "64 word"
type_synonym feature = string
type_synonym segment = string
type_synonym language_id = string
type_synonym parse_map = "segment \<rightharpoonup> feature list"
type_synonym lang_entry = "language_id \<times> segment list"

text \<open>
  The ways the query programs stop with \<open>log.Fatal\<close>: an unknown comparison
  operator and a language identifier \<open>strconv.Atoi\<close> rejects (inside the core),
  a cache file \<open>os.Open\<close> cannot open, and a line of standard input that ends
  without a newline (\<open>bufio.Reader.ReadBytes\<close> returns \<open>io.EOF\<close>).
\<close>

datatype fatal =
    OperatorNotRecognised string
  | AtoiSyntaxOrRange string
  | OpenFailed string
  | ReadBytesEOF

named_theorems goint_bridge "facts moving between goint arithmetic and int"
named_theorems count_facts "facts about counting filtered lists"

abbreviation goint_min :: int where
  "goint_min \<equiv> - (2 ^ 63)"

abbreviation goint_max :: int where
  "goint_max \<equiv> 2 ^ 63 - 1"

subsection \<open>Words and integers\<close>

lemma sint_goint_range [goint_bridge]:
  "goint_min \<le> sint (w :: goint) \<and> sint w \<le> goint_max"
  using sint_ge [of w] sint_lt [of w] by simp

lemma int_less_goint_bound [goint_bridge]: "n < 2 ^ 63 \<Longrightarrow> int n < 2 ^ 63"
  by (metis of_nat_less_iff of_nat_numeral of_nat_power)

lemma sint_of_nat_goint [goint_bridge]:
  assumes "n < 2 ^ 63"
  shows "sint (word_of_nat n :: goint) = int n"
proof -
  have "int n < 2 ^ 63" using assms by (rule int_less_goint_bound)
  then show ?thesis
    by (simp add: signed_of_nat signed_take_bit_int_eq_self)
qed

lemma sint_diff_goint_exact [goint_bridge]:
  assumes "goint_min \<le> sint a - sint b" and "sint a - sint b \<le> goint_max"
  shows "sint (a - b :: goint) = sint a - sint b"
  using assms by (simp add: sint_word_diff signed_take_bit_int_eq_self)

lemma sint_diff_goint_shift:
  "sint (a - b :: goint) = take_bit 64 (sint a - sint b + 2 ^ 63) - 2 ^ 63"
  by (simp only: sint_word_diff signed_take_bit_eq_take_bit_shift) simp

lemma take_bit_64_above:
  fixes x :: int
  assumes "2 ^ 63 - 1 < x" and "x \<le> 2 ^ 64 - 1"
  shows "take_bit 64 (x + 2 ^ 63) = x + 2 ^ 63 - 2 ^ 64"
proof -
  have "2 ^ 64 \<le> x + 2 ^ 63" "x + 2 ^ 63 - 2 ^ 64 < 2 ^ 64" using assms by simp_all
  then have "(x + 2 ^ 63) mod 2 ^ 64 = x + 2 ^ 63 - 2 ^ 64"
    by (simp add: mod_pos_geq mod_pos_pos_trivial)
  then show ?thesis by (simp add: take_bit_eq_mod)
qed

lemma sint_diff_goint_below_max:
  fixes a b :: goint
  shows "sint a - sint b \<le> 2 ^ 64 - 1"
proof -
  have "sint a \<le> 2 ^ 63 - 1" "- (2 ^ 63) \<le> sint b"
    using sint_goint_range [of a] sint_goint_range [of b] by auto
  moreover have "(2::int) ^ 64 = 2 * 2 ^ 63" by simp
  ultimately show ?thesis by linarith
qed

text \<open>A difference above \<open>math.MaxInt64\<close> wraps to a negative one.\<close>

lemma sint_diff_goint_overflow [goint_bridge]:
  assumes "goint_max < sint a - sint b"
  shows "sint (a - b :: goint) = sint a - sint b - 2 ^ 64"
proof -
  let ?x = "sint a - sint b"
  have "sint (a - b) = take_bit 64 (?x + 2 ^ 63) - 2 ^ 63"
    by (rule sint_diff_goint_shift)
  also have "take_bit 64 (?x + 2 ^ 63) = ?x + 2 ^ 63 - 2 ^ 64"
    using assms sint_diff_goint_below_max [of a b] by (intro take_bit_64_above) simp_all
  finally show ?thesis by simp
qed

subsection \<open>Counting\<close>

lemma length_filter_mset_eq [count_facts]:
  "mset xs = mset ys \<Longrightarrow> length (filter P xs) = length (filter P ys)"
  by (metis mset_filter size_mset)

end
