(* ===== verification/Features.thy ===== *)
theory Features
  imports Prelude
begin

text \<open>
  The feature query parser: \<open>InitialiseFeatures\<close> of
  \<open>src/go_modules/featurecounts/featurecounts.go\<close> and its caller
  \<open>readOneSetOfFeatures\<close> of \<open>src/go_modules/comparisonquery/main.go\<close> (the
  count query inlines the same three lines). Each raw tag is trimmed of every leading
  and trailing \<open>+\<close> and \<open>-\<close> (\<open>strings.Trim(feature, "+-")\<close>) and appended to
  the positive list when the untrimmed tag starts with \<open>+\<close>
  (\<open>strings.HasPrefix\<close>), to the negative list otherwise. The two output slices are
  passed by pointer and appended to, so the model takes and returns them.
  Go strings are byte sequences; \<open>+\<close> and \<open>-\<close> are ASCII, and no byte of a
  multi-byte UTF-8 sequence is ASCII, so trimming bytes is trimming runes.
\<close>

definition is_sign :: "char \<Rightarrow> bool" where
  "is_sign c \<longleftrightarrow> c = CHR ''+'' \<or> c = CHR ''-''"

definition trim_left_signs :: "string \<Rightarrow> string" where
  "trim_left_signs s = dropWhile is_sign s"

definition trim_right_signs :: "string \<Rightarrow> string" where
  "trim_right_signs s = rev (dropWhile is_sign (rev s))"

definition trim_signs :: "string \<Rightarrow> string" where
  "trim_signs s = trim_left_signs (trim_right_signs s)"

definition has_prefix :: "string \<Rightarrow> string \<Rightarrow> bool" where
  "has_prefix s prefix \<longleftrightarrow> length prefix \<le> length s \<and> take (length prefix) s = prefix"

fun initialise_features ::
  "string list \<Rightarrow> feature list \<Rightarrow> feature list \<Rightarrow> feature list \<times> feature list" where
  "initialise_features [] posFeatures negFeatures = (posFeatures, negFeatures)"
| "initialise_features (feature # rawFeatures) posFeatures negFeatures =
     (let trimmedFeature = trim_signs feature in
      if has_prefix feature ''+''
      then initialise_features rawFeatures (posFeatures @ [trimmedFeature]) negFeatures
      else initialise_features rawFeatures posFeatures (negFeatures @ [trimmedFeature]))"

definition read_one_set_of_features :: "string list \<Rightarrow> feature list \<times> feature list" where
  "read_one_set_of_features rawFeatures = initialise_features rawFeatures [] []"

text \<open>The classification, as a predicate on one raw tag.\<close>

definition is_positive_tag :: "string \<Rightarrow> bool" where
  "is_positive_tag feature \<longleftrightarrow> has_prefix feature ''+''"

text \<open>
  A bare feature name: empty, or neither starting nor ending with a sign character.
  This is what the trimming establishes; it says nothing of signs inside the name.
\<close>

definition bare_feature :: "string \<Rightarrow> bool" where
  "bare_feature f \<longleftrightarrow> f = [] \<or> (\<not> is_sign (hd f) \<and> \<not> is_sign (last f))"

subsection \<open>Characteristic equations\<close>

lemma has_prefix_plus_iff [simp]:
  "has_prefix s ''+'' \<longleftrightarrow> (s \<noteq> [] \<and> hd s = CHR ''+'')"
  by (cases s) (auto simp: has_prefix_def)

lemma is_positive_tag_iff:
  "is_positive_tag s \<longleftrightarrow> (s \<noteq> [] \<and> hd s = CHR ''+'')"
  by (simp add: is_positive_tag_def)

lemma initialise_features_eq:
  "initialise_features raw pos neg =
     (pos @ map trim_signs (filter is_positive_tag raw),
      neg @ map trim_signs (filter (\<lambda>f. \<not> is_positive_tag f) raw))"
  by (induction raw pos neg rule: initialise_features.induct)
     (simp_all add: Let_def is_positive_tag_def)

subsection \<open>Trimming\<close>

lemmas trim_defs = trim_signs_def trim_left_signs_def trim_right_signs_def

lemma dropWhile_last: "dropWhile P xs \<noteq> [] \<Longrightarrow> last (dropWhile P xs) = last xs"
  by (metis last_append takeWhile_dropWhile_id)

lemma dropWhile_hd_stop: "xs \<noteq> [] \<Longrightarrow> \<not> P (hd xs) \<Longrightarrow> dropWhile P xs = xs"
  by (cases xs) simp_all

lemma trim_signs_Nil_right:
  "dropWhile is_sign (rev s) = [] \<Longrightarrow> trim_signs s = []"
  by (simp only: trim_defs rev.simps dropWhile.simps)

lemma trim_signs_bare: "bare_feature (trim_signs s)"
proof (cases "trim_signs s = []")
  case False
  let ?r = "dropWhile is_sign (rev s)"
  have r: "?r \<noteq> []" using False trim_signs_Nil_right by blast
  have "\<not> is_sign (hd (trim_signs s))"
    using False by (metis hd_dropWhile trim_signs_def trim_left_signs_def)
  moreover have "last (trim_signs s) = hd ?r"
    using False r by (simp add: trim_defs dropWhile_last last_rev)
  ultimately show ?thesis using hd_dropWhile [OF r] by (simp add: bare_feature_def)
qed (simp add: bare_feature_def)

lemma bare_trim_signs_id: "bare_feature f \<Longrightarrow> trim_signs f = f"
  by (cases "f = []")
     (auto simp: bare_feature_def trim_defs dropWhile_hd_stop hd_rev)

lemma trim_signs_bare_iff: "trim_signs f = f \<longleftrightarrow> bare_feature f"
  by (metis bare_trim_signs_id trim_signs_bare)

lemma trim_signs_idem: "trim_signs (trim_signs s) = trim_signs s"
  by (simp add: bare_trim_signs_id trim_signs_bare)

lemma trim_signs_sign_Cons:
  assumes "bare_feature f" "f \<noteq> []" "is_sign c"
  shows "trim_signs (c # f) = f"
proof -
  have "dropWhile is_sign (rev f @ [c]) = rev f @ [c]"
    using assms by (intro dropWhile_hd_stop) (auto simp: bare_feature_def hd_append hd_rev)
  then show ?thesis
    using assms by (simp add: trim_defs dropWhile_hd_stop bare_feature_def)
qed

lemmas read_features_simps = read_one_set_of_features_def initialise_features_eq

subsection \<open>Properties of the parser\<close>

text \<open>
  C11: the parser's output, as lists: the positive features are the trimmed tags that
  start with \<open>+\<close> and the negative features are all other trimmed tags, each in
  input order.
\<close>

theorem read_one_set_of_features_eq:
  "read_one_set_of_features raw =
     (map trim_signs (filter is_positive_tag raw),
      map trim_signs (filter (\<lambda>f. \<not> is_positive_tag f) raw))"
  by (simp add: read_features_simps)

text \<open>
  C12: every feature the parser produces, positive or negative, is bare: it neither
  starts nor ends with \<open>+\<close> or \<open>-\<close>.
\<close>

theorem read_features_bare:
  assumes "read_one_set_of_features raw = (pos, neg)" and "f \<in> set pos \<union> set neg"
  shows "bare_feature f"
  using assms by (auto simp: read_features_simps trim_signs_bare)

theorem read_features_bare_witness:
  "read_one_set_of_features [''+voice-'', ''--nasal+''] = ([''voice''], [''nasal''])
   \<and> bare_feature ''voice'' \<and> bare_feature ''nasal''"
proof -
  have r: "read_one_set_of_features [''+voice-'', ''--nasal+''] = ([''voice''], [''nasal''])"
    by (simp add: read_one_set_of_features_def trim_defs is_sign_def)
  have "bare_feature ''voice''" using read_features_bare [OF r, of "''voice''"] by simp
  moreover have "bare_feature ''nasal''" using read_features_bare [OF r, of "''nasal''"] by simp
  ultimately show ?thesis using r by simp
qed

text \<open>
  C13: the parser drops no tag: the positive and the negative list together have one
  entry per raw tag, including a tag such as \<open>"+"\<close> that is empty after trimming.
\<close>

theorem read_features_keeps_every_tag:
  "length (fst (read_one_set_of_features raw)) + length (snd (read_one_set_of_features raw))
     = length raw"
  by (simp add: read_features_simps sum_length_filter_compl)

text \<open>
  C14: a bare non-empty feature name survives the parser: \<open>+f\<close> gives the positive
  query \<open>[f]\<close>, and both \<open>-f\<close> and the unprefixed \<open>f\<close> give the negative
  query \<open>[f]\<close>.
\<close>

theorem read_features_roundtrip:
  assumes "bare_feature f" and "f \<noteq> []"
  shows "read_one_set_of_features [CHR ''+'' # f] = ([f], [])
     \<and> read_one_set_of_features [CHR ''-'' # f] = ([], [f])
     \<and> read_one_set_of_features [f] = ([], [f])"
  using assms
  by (auto simp: read_features_simps is_positive_tag_iff trim_signs_sign_Cons
      bare_trim_signs_id is_sign_def bare_feature_def)

theorem read_features_roundtrip_witness:
  "read_one_set_of_features [''+voice''] = ([''voice''], [])
   \<and> read_one_set_of_features [''-voice''] = ([], [''voice''])
   \<and> read_one_set_of_features [''voice''] = ([], [''voice''])"
  using read_features_roundtrip [of "''voice''"] by (simp add: bare_feature_def is_sign_def)

lemma trim_signs_all_signs: "list_all is_sign s \<Longrightarrow> trim_signs s = []"
  by (rule trim_signs_Nil_right) (simp add: dropWhile_eq_Nil_conv list_all_iff)

lemma bare_inner_sign:
  assumes "bare_feature a" "a \<noteq> []" "bare_feature b" "b \<noteq> []"
  shows "bare_feature (a @ c # b)"
  using assms by (simp add: bare_feature_def hd_append)

text \<open>
  C16: trimming touches only the ends of a tag: for bare non-empty names \<open>a\<close> and
  \<open>b\<close>, a sign between them stays, so \<open>"+a-b"\<close> is the positive feature
  \<open>"a-b"\<close>; and every tag made of signs only (\<open>"+"\<close>, \<open>"-"\<close>, \<open>"+-+"\<close>, ...)
  becomes the empty feature, positive when it starts with \<open>+\<close>, rather than being
  dropped.
\<close>

theorem read_features_inner_sign_and_empty:
  assumes "bare_feature a" "a \<noteq> []" "bare_feature b" "b \<noteq> []" "is_sign c"
    and "list_all is_sign s"
  shows "read_one_set_of_features [CHR ''+'' # a @ c # b] = ([a @ c # b], [])
    \<and> read_one_set_of_features [CHR ''+'' # s] = ([[]], [])
    \<and> read_one_set_of_features [CHR ''-'' # s] = ([], [[]])"
proof -
  have "trim_signs (CHR ''+'' # a @ c # b) = a @ c # b"
    using bare_inner_sign [OF assms(1-4)] by (rule trim_signs_sign_Cons) (simp_all add: is_sign_def)
  moreover have "trim_signs (CHR ''+'' # s) = []" "trim_signs (CHR ''-'' # s) = []"
    using assms(6) by (simp_all add: trim_signs_all_signs is_sign_def)
  ultimately show ?thesis by (simp add: read_features_simps is_positive_tag_def)
qed

theorem read_features_inner_sign_and_empty_witness:
  "read_one_set_of_features [''+a-b''] = ([''a-b''], [])
   \<and> read_one_set_of_features [''+-+''] = ([[]], [])
   \<and> read_one_set_of_features [''-''] = ([], [[]])"
  using read_features_inner_sign_and_empty [of "''a''" "''b''" "CHR ''-''" "''-+''"]
    read_features_inner_sign_and_empty [of "''a''" "''b''" "CHR ''-''" "[]"]
  by (simp_all add: bare_feature_def is_sign_def)

end
