(* ===== verification/Counting.thy ===== *)
theory Counting
  imports Prelude
begin

text \<open>
  The segment matcher and the inventory counters. \<open>contains\<close> and
  \<open>GetCountForFeatures\<close> come from \<open>src/go_modules/featurecounts/featurecounts.go\<close>,
  \<open>getCountForPhoneme\<close> from \<open>src/go_modules/phonemequery/main.go\<close>.
  \<open>GetCountForFeatures\<close> walks the inventory; for each segment it looks up the
  parse (a missing key of a Go map reads as the nil slice, here \<open>[]\<close>), runs the
  negative loop (the first negative feature found in the parse sets \<open>skipThis\<close>
  and breaks), then the positive loop (the first positive feature missing from the
  parse sets \<open>skipThis\<close> and breaks), and increments the Go \<open>int\<close> result
  when neither loop skipped the segment. Each inner loop is one \<^theory_text>\<open>primrec\<close>
  returning the final \<open>skipThis\<close>; the outer loop carries \<open>result\<close> as a
  64-bit word, so \<open>result++\<close> wraps as Go's does.
  The reference \<open>segment_matches\<close> is the set-level contract of the matcher and
  \<open>count_matching\<close> the unbounded count it induces.
\<close>

primrec contains :: "string list \<Rightarrow> string \<Rightarrow> bool" where
  "contains [] element = False"
| "contains (s # ss) element = (if s = element then True else contains ss element)"

definition parse_of :: "parse_map \<Rightarrow> segment \<Rightarrow> feature list" where
  "parse_of parses segment = (case parses segment of None \<Rightarrow> [] | Some parse \<Rightarrow> parse)"

primrec skip_for_negative :: "feature list \<Rightarrow> feature list \<Rightarrow> bool" where
  "skip_for_negative parse [] = False"
| "skip_for_negative parse (f # negFeatues) =
     (if contains parse f then True else skip_for_negative parse negFeatues)"

primrec skip_for_positive :: "feature list \<Rightarrow> feature list \<Rightarrow> bool" where
  "skip_for_positive parse [] = False"
| "skip_for_positive parse (f # posFeatures) =
     (if \<not> contains parse f then True else skip_for_positive parse posFeatures)"

fun count_loop ::
  "feature list \<Rightarrow> feature list \<Rightarrow> parse_map \<Rightarrow> segment list \<Rightarrow> goint \<Rightarrow> goint" where
  "count_loop posFeatures negFeatues parses [] result = result"
| "count_loop posFeatures negFeatues parses (segment # inventory) result =
     (let parse = parse_of parses segment in
      if skip_for_negative parse negFeatues
      then count_loop posFeatures negFeatues parses inventory result
      else if skip_for_positive parse posFeatures
      then count_loop posFeatures negFeatues parses inventory result
      else count_loop posFeatures negFeatues parses inventory (result + 1))"

definition get_count_for_features ::
  "feature list \<Rightarrow> feature list \<Rightarrow> segment list \<Rightarrow> parse_map \<Rightarrow> goint" where
  "get_count_for_features posFeatures negFeatues inventory parses =
     count_loop posFeatures negFeatues parses inventory 0"

fun get_count_for_phoneme :: "string \<Rightarrow> segment list \<Rightarrow> goint" where
  "get_count_for_phoneme phoneme [] = 0"
| "get_count_for_phoneme phoneme (segment # inventory) =
     (if segment = phoneme then 1 else get_count_for_phoneme phoneme inventory)"

subsection \<open>Reference contract\<close>

definition segment_matches :: "feature list \<Rightarrow> feature list \<Rightarrow> feature list \<Rightarrow> bool" where
  "segment_matches posFeatures negFeatures parse \<longleftrightarrow>
     set posFeatures \<subseteq> set parse \<and> set negFeatures \<inter> set parse = {}"

definition count_matching ::
  "feature list \<Rightarrow> feature list \<Rightarrow> segment list \<Rightarrow> parse_map \<Rightarrow> nat" where
  "count_matching posFeatures negFeatures inventory parses =
     length (filter (\<lambda>s. segment_matches posFeatures negFeatures (parse_of parses s)) inventory)"

subsection \<open>The loops against the contract\<close>

lemma contains_iff [simp]: "contains ss element \<longleftrightarrow> element \<in> set ss"
  by (induction ss) auto

lemma skip_for_negative_iff [simp]:
  "skip_for_negative parse negs \<longleftrightarrow> set negs \<inter> set parse \<noteq> {}"
  by (induction negs) auto

lemma skip_for_positive_iff [simp]:
  "skip_for_positive parse pos \<longleftrightarrow> \<not> set pos \<subseteq> set parse"
  by (induction pos) auto

lemma count_loop_eq:
  "count_loop pos neg parses inventory result =
     result + word_of_nat (count_matching pos neg inventory parses)"
  by (induction inventory arbitrary: result)
     (auto simp: count_matching_def segment_matches_def Let_def)

lemma get_count_for_features_eq:
  "get_count_for_features pos neg inventory parses =
     word_of_nat (count_matching pos neg inventory parses)"
  by (simp add: get_count_for_features_def count_loop_eq)

lemma count_matching_le_length [count_facts]:
  "count_matching pos neg inventory parses \<le> length inventory"
  by (simp add: count_matching_def)

lemma sint_get_count_for_features [goint_bridge]:
  "length inventory < 2 ^ 63 \<Longrightarrow>
   sint (get_count_for_features pos neg inventory parses) =
     int (count_matching pos neg inventory parses)"
  using count_matching_le_length [of pos neg inventory parses]
  by (simp add: get_count_for_features_eq sint_of_nat_goint)

lemma get_count_for_phoneme_eq:
  "get_count_for_phoneme phoneme inventory = (if phoneme \<in> set inventory then 1 else 0)"
  by (induction inventory) auto

lemma sint_get_count_for_phoneme [goint_bridge]:
  "sint (get_count_for_phoneme phoneme inventory) = (if phoneme \<in> set inventory then 1 else 0)"
  by (simp add: get_count_for_phoneme_eq)

lemma count_matching_mset:
  "mset inventory = mset inventory' \<Longrightarrow>
   count_matching pos neg inventory parses = count_matching pos neg inventory' parses"
  unfolding count_matching_def by (rule length_filter_mset_eq)

subsection \<open>Properties of the counters\<close>

text \<open>
  C1: \<open>GetCountForFeatures\<close>, with its two early-exit loops and its 64-bit counter,
  computes the number of segments of the inventory whose parse contains every positive
  feature and no negative one, reduced modulo \<open>2^64\<close> as Go's \<open>int\<close> is.
\<close>

theorem get_count_for_features_correct:
  "get_count_for_features pos neg inventory parses =
     word_of_nat (length (filter (\<lambda>s. set pos \<subseteq> set (parse_of parses s)
                                      \<and> set neg \<inter> set (parse_of parses s) = {}) inventory))"
  by (simp add: get_count_for_features_eq count_matching_def segment_matches_def)

text \<open>
  C17: \<open>getCountForPhoneme\<close> reports presence, not frequency: it is 1 exactly when
  the phoneme occurs in the inventory and 0 otherwise, however often it occurs.
\<close>

theorem get_count_for_phoneme_presence:
  "(get_count_for_phoneme phoneme inventory = 1 \<longleftrightarrow> phoneme \<in> set inventory)
   \<and> (get_count_for_phoneme phoneme inventory = 0 \<longleftrightarrow> phoneme \<notin> set inventory)"
  by (simp add: get_count_for_phoneme_eq)

text \<open>
  The empty feature query (no positive and no negative feature) counts every
  segment of the inventory, duplicates included.
\<close>

theorem empty_query_counts_all:
  "get_count_for_features [] [] inventory parses = word_of_nat (length inventory)"
  by (simp add: get_count_for_features_eq count_matching_def segment_matches_def)

text \<open>
  C22: on any inventory shorter than \<open>2^63\<close> segments the count read as a Go
  \<open>int\<close> lies between 0 and the inventory's length: the counter never wraps.
\<close>

theorem get_count_for_features_bounds:
  assumes "length inventory < 2 ^ 63"
  shows "0 \<le> sint (get_count_for_features pos neg inventory parses)
    \<and> sint (get_count_for_features pos neg inventory parses) \<le> int (length inventory)"
  using assms count_matching_le_length [of pos neg inventory parses]
  by (simp add: sint_get_count_for_features)

theorem get_count_for_features_bounds_witness:
  "0 \<le> sint (get_count_for_features [''nasal''] [] [''m'', ''p''] [''m'' \<mapsto> [''nasal'']])
    \<and> sint (get_count_for_features [''nasal''] [] [''m'', ''p''] [''m'' \<mapsto> [''nasal'']]) \<le> 2"
  using get_count_for_features_bounds [of "[''m'', ''p'']" "[''nasal'']" "[]" "[''m'' \<mapsto> [''nasal'']]"]
  by simp

text \<open>
  C24: the count does not depend on the order of the inventory's segments, and it adds
  up over any two concatenated inventories, so every listed occurrence of a segment is
  counted (inventories are not deduplicated).
\<close>

theorem get_count_for_features_order_and_duplicates:
  assumes "mset inventory = mset inventory'"
  shows "get_count_for_features pos neg inventory parses = get_count_for_features pos neg inventory' parses
    \<and> get_count_for_features pos neg (inventory @ more) parses
        = get_count_for_features pos neg inventory parses + get_count_for_features pos neg more parses"
proof
  show "get_count_for_features pos neg inventory parses = get_count_for_features pos neg inventory' parses"
    by (simp only: get_count_for_features_eq count_matching_mset [OF assms])
  show "get_count_for_features pos neg (inventory @ more) parses
        = get_count_for_features pos neg inventory parses + get_count_for_features pos neg more parses"
    by (simp only: get_count_for_features_eq count_matching_def filter_append length_append of_nat_add)
qed

theorem get_count_for_features_order_and_duplicates_witness:
  "get_count_for_features [''nasal''] [] [''m'', ''p''] [''m'' \<mapsto> [''nasal'']]
     = get_count_for_features [''nasal''] [] [''p'', ''m''] [''m'' \<mapsto> [''nasal'']]
   \<and> get_count_for_features [''nasal''] [] ([''m'', ''p''] @ [''m'', ''n'', ''m'']) [''m'' \<mapsto> [''nasal'']]
     = get_count_for_features [''nasal''] [] [''m'', ''p''] [''m'' \<mapsto> [''nasal'']]
       + get_count_for_features [''nasal''] [] [''m'', ''n'', ''m''] [''m'' \<mapsto> [''nasal'']]"
  using get_count_for_features_order_and_duplicates
      [of "[''m'', ''p'']" "[''p'', ''m'']" "[''nasal'']" "[]" "[''m'' \<mapsto> [''nasal'']]" "[''m'', ''n'', ''m'']"]
  by simp

end
