(* ===== verification/Comparator.thy ===== *)
theory Comparator
  imports Prelude
begin

text \<open>
  The comparator \<open>CheckDiff\<close> of \<open>src/go_modules/featurecounts/featurecounts.go\<close>:
  a switch on the operator string comparing a Go \<open>int\<close> difference with zero, and
  \<open>log.Fatal\<close> on any other operator (the \<open>Inl\<close> branch). Go's \<open><\<close> on
  \<open>int\<close> is the signed order, so the model reads the word with \<open>sint\<close>.
  The abstract side is a datatype of the five relations and their meaning on
  unbounded integers; \<open>check_diff\<close> refines it: it recognises exactly the five
  spellings and, on a recognised operator, decides the relation of \<open>sint diff\<close>.
\<close>

definition check_diff :: "string \<Rightarrow> goint \<Rightarrow> fatal + bool" where
  "check_diff op diff =
     (if op = ''='' then Inr (diff = 0)
      else if op = ''<'' then Inr (sint diff < 0)
      else if op = ''<='' then Inr (sint diff \<le> 0)
      else if op = ''>'' then Inr (sint diff > 0)
      else if op = ''>='' then Inr (sint diff \<ge> 0)
      else Inl (OperatorNotRecognised op))"

datatype cmp_op = OpEq | OpLt | OpLe | OpGt | OpGe

definition parse_op :: "string \<Rightarrow> cmp_op option" where
  "parse_op op =
     (if op = ''='' then Some OpEq
      else if op = ''<'' then Some OpLt
      else if op = ''<='' then Some OpLe
      else if op = ''>'' then Some OpGt
      else if op = ''>='' then Some OpGe
      else None)"

primrec holds :: "cmp_op \<Rightarrow> int \<Rightarrow> bool" where
  "holds OpEq d \<longleftrightarrow> d = 0"
| "holds OpLt d \<longleftrightarrow> d < 0"
| "holds OpLe d \<longleftrightarrow> d \<le> 0"
| "holds OpGt d \<longleftrightarrow> d > 0"
| "holds OpGe d \<longleftrightarrow> d \<ge> 0"

subsection \<open>The comparator against its contract\<close>

lemma sint_eq_0_iff [goint_bridge]: "sint (w :: goint) = 0 \<longleftrightarrow> w = 0"
  by (rule signed_eq_0_iff)

lemma check_diff_parse_op:
  "check_diff op diff =
     (case parse_op op of
        None \<Rightarrow> Inl (OperatorNotRecognised op)
      | Some c \<Rightarrow> Inr (holds c (sint diff)))"
  by (simp add: check_diff_def parse_op_def sint_eq_0_iff)

lemma check_diff_valid [simp]:
  "parse_op op = Some c \<Longrightarrow> check_diff op diff = Inr (holds c (sint diff))"
  by (simp add: check_diff_parse_op)

lemma check_diff_invalid [simp]:
  "parse_op op = None \<Longrightarrow> check_diff op diff = Inl (OperatorNotRecognised op)"
  by (simp add: check_diff_parse_op)

subsection \<open>Properties of the comparator\<close>

text \<open>
  C2: \<open>CheckDiff\<close> implements its contract: it succeeds exactly on the five operator
  spellings, with the truth of that relation between the signed difference and zero,
  and it is fatal, naming the operator, on every other string, whatever the difference.
\<close>

theorem check_diff_contract:
  "(check_diff op diff = Inr b \<longleftrightarrow> (\<exists>c. parse_op op = Some c \<and> b = holds c (sint diff)))
   \<and> (check_diff op diff = Inl e \<longleftrightarrow> parse_op op = None \<and> e = OperatorNotRecognised op)"
  by (cases "parse_op op") (auto simp: check_diff_parse_op)

lemma check_diff_literal_ops:
  "check_diff ''<'' diff = Inr (sint diff < 0)"
  "check_diff ''='' diff = Inr (sint diff = 0)"
  "check_diff ''>'' diff = Inr (sint diff > 0)"
  "check_diff ''<='' diff = Inr (sint diff \<le> 0)"
  "check_diff ''>='' diff = Inr (sint diff \<ge> 0)"
  by (simp_all add: check_diff_def sint_eq_0_iff)

text \<open>
  For every difference exactly one of the operators \<open><\<close>, \<open>=\<close> and
  \<open>>\<close> selects, and \<open><=\<close> and \<open>>=\<close> select exactly when one of the two
  relations they combine does.
\<close>

theorem check_diff_trichotomy:
  "length (filter (\<lambda>op. check_diff op diff = Inr True) [''<'', ''='', ''>'']) = 1
   \<and> check_diff ''<='' diff = Inr (check_diff ''<'' diff = Inr True \<or> check_diff ''='' diff = Inr True)
   \<and> check_diff ''>='' diff = Inr (check_diff ''>'' diff = Inr True \<or> check_diff ''='' diff = Inr True)"
proof (cases "sint diff < 0")
  case True
  then show ?thesis by (simp add: check_diff_literal_ops)
next
  case False
  then show ?thesis by (cases "sint diff = 0") (auto simp: check_diff_literal_ops)
qed

end
