(* ===== verification/Strconv.thy ===== *)
theory Strconv
  imports Prelude
begin

text \<open>
  The decimal conversions the query programs rely on at their boundary.
  \<open>atoi\<close> is \<open>strconv.Atoi(languageID)\<close> as the three \<open>main\<close> functions
  call it on a selected language identifier: an optional \<open>+\<close> or \<open>-\<close>, then at
  least one decimal digit and nothing else, with a value in the range of a 64-bit
  \<open>int\<close>; anything else is a syntax or range error, which the caller turns into
  \<open>log.Fatal\<close>. Go's fast path (short inputs) and slow path (\<open>ParseInt\<close>)
  accept the same strings with the same values, so one definition models both.
  \<open>format_int\<close> is the decimal form \<open>json.Marshal\<close> writes for each
  \<open>int\<close> of the result slice (\<open>strconv.AppendInt\<close> in base 10).
  The roundtrip \<open>atoi (format_int w) = Inr w\<close> says the identifiers the programs
  print are read back as the same integers.
\<close>

definition is_digit :: "char \<Rightarrow> bool" where
  "is_digit c \<longleftrightarrow> 48 \<le> (of_char c :: nat) \<and> (of_char c :: nat) \<le> 57"

definition digit_value :: "char \<Rightarrow> nat" where
  "digit_value c = of_char c - 48"

definition decimal_value :: "string \<Rightarrow> nat" where
  "decimal_value ds = foldl (\<lambda>n c. 10 * n + digit_value c) 0 ds"

definition atoi :: "string \<Rightarrow> fatal + goint" where
  "atoi s =
     (let neg = (s \<noteq> [] \<and> hd s = CHR ''-'');
          ds = (if s \<noteq> [] \<and> (hd s = CHR ''-'' \<or> hd s = CHR ''+'') then tl s else s)
      in if ds = [] \<or> \<not> list_all is_digit ds then Inl (AtoiSyntaxOrRange s)
         else
           (let v = (if neg then - int (decimal_value ds) else int (decimal_value ds))
            in if v < goint_min \<or> goint_max < v then Inl (AtoiSyntaxOrRange s)
               else Inr (word_of_int v)))"

fun format_nat :: "nat \<Rightarrow> string" where
  "format_nat n =
     (if n < 10 then [char_of (48 + n)]
      else format_nat (n div 10) @ [char_of (48 + n mod 10)])"

declare format_nat.simps [simp del]

definition format_int :: "goint \<Rightarrow> string" where
  "format_int w =
     (if sint w < 0 then CHR ''-'' # format_nat (nat (- sint w)) else format_nat (nat (sint w)))"

subsection \<open>Digits\<close>

lemma digit_char: "d < 10 \<Longrightarrow> is_digit (char_of (48 + d)) \<and> digit_value (char_of (48 + d)) = d"
  by (simp add: is_digit_def digit_value_def)

lemma decimal_value_snoc: "decimal_value (ds @ [c]) = 10 * decimal_value ds + digit_value c"
  by (simp add: decimal_value_def)

lemma is_digit_not_sign: "is_digit c \<Longrightarrow> c \<noteq> CHR ''-'' \<and> c \<noteq> CHR ''+''"
  by (auto simp: is_digit_def)

lemma format_nat_digits:
  "format_nat n \<noteq> [] \<and> list_all is_digit (format_nat n) \<and> decimal_value (format_nat n) = n"
proof (induction n rule: format_nat.induct)
  case (1 n)
  show ?case
  proof (cases "n < 10")
    case True
    then show ?thesis by (simp add: format_nat.simps [of n] digit_char decimal_value_def)
  next
    case False
    then have "format_nat n = format_nat (n div 10) @ [char_of (48 + n mod 10)]"
      by (simp add: format_nat.simps [of n])
    with False "1.IH" show ?thesis by (simp add: digit_char decimal_value_snoc)
  qed
qed

subsection \<open>Roundtrip\<close>

text \<open>
  Every 64-bit integer written in decimal by \<open>format_int\<close> is read back by
  \<open>strconv.Atoi\<close> as the same integer, \<open>math.MinInt64\<close> included.
\<close>

lemma atoi_format_int: "atoi (format_int w) = Inr w"
proof -
  have r: "goint_min \<le> sint w \<and> sint w \<le> goint_max" by (rule sint_goint_range)
  show ?thesis
  proof (cases "sint w < 0")
    case True
    let ?m = "nat (- sint w)"
    have "int ?m = - sint w" using True by simp
    with True r format_nat_digits [of ?m] show ?thesis
      by (simp add: format_int_def atoi_def Let_def)
  next
    case False
    let ?m = "nat (sint w)"
    have ds: "format_nat ?m \<noteq> []" "list_all is_digit (format_nat ?m)"
        "decimal_value (format_nat ?m) = ?m"
      using format_nat_digits by blast+
    then have "\<not> (hd (format_nat ?m) = CHR ''-'' \<or> hd (format_nat ?m) = CHR ''+'')"
      by (cases "format_nat ?m") (auto dest: is_digit_not_sign)
    with False r ds show ?thesis
      by (simp add: format_int_def atoi_def Let_def)
  qed
qed

end
