(* ===== verification/Query.thy ===== *)
theory Query
  imports Features Counting Comparator Strconv
begin

text \<open>
  The query evaluator: the loop the three \<open>main\<close> functions of
  \<open>src/go_modules/comparisonquery\<close>, \<open>countquery\<close> and \<open>phonemequery\<close> share.
  For every \<open>(languageID, inventory)\<close> of the inventories map it computes a
  difference, calls \<open>CheckDiff\<close> (fatal on an unknown operator), and on a selected
  language converts the identifier with \<open>strconv.Atoi\<close> (fatal on a non-numeric
  one) and appends it to \<open>result\<close>. \<open>select_languages\<close> is that loop, with the
  difference as a parameter; the three queries instantiate it as their \<open>main\<close>s do.
  Go visits a map in an unspecified order: the model takes the entries in the order
  of one run. A fatal error ends the run before anything is printed, so a
  result \<open>Inl\<close> stands for "no output".
  \<open>select_spec\<close> is the loop's contract: nothing to do on an empty map, the
  operator error on any other map with an unknown operator, otherwise the first
  selected identifier that does not parse, or the identifiers of all selected
  languages.
\<close>

fun select_languages ::
  "(segment list \<Rightarrow> goint) \<Rightarrow> string \<Rightarrow> lang_entry list \<Rightarrow> goint list \<Rightarrow> fatal + goint list" where
  "select_languages diffOf op [] result = Inr result"
| "select_languages diffOf op ((languageID, inventory) # inventories) result =
     (case check_diff op (diffOf inventory) of
        Inl e \<Rightarrow> Inl e
      | Inr selected \<Rightarrow>
          if selected then
            (case atoi languageID of
               Inl e \<Rightarrow> Inl e
             | Inr intID \<Rightarrow> select_languages diffOf op inventories (result @ [intID]))
          else select_languages diffOf op inventories result)"

definition comparison_query ::
  "string \<Rightarrow> string list \<Rightarrow> string list \<Rightarrow> lang_entry list \<Rightarrow> parse_map \<Rightarrow> fatal + goint list" where
  "comparison_query op rawFeatures1 rawFeatures2 inventories parses =
     (let (posFeatures1, negFeatures1) = read_one_set_of_features rawFeatures1;
          (posFeatures2, negFeatures2) = read_one_set_of_features rawFeatures2
      in select_languages
           (\<lambda>inventory. get_count_for_features posFeatures1 negFeatures1 inventory parses
                        - get_count_for_features posFeatures2 negFeatures2 inventory parses)
           op inventories [])"

definition count_query ::
  "string \<Rightarrow> goint \<Rightarrow> string list \<Rightarrow> lang_entry list \<Rightarrow> parse_map \<Rightarrow> fatal + goint list" where
  "count_query op target rawFeatures inventories parses =
     (let (posFeatures, negFeatures) = initialise_features rawFeatures [] []
      in select_languages
           (\<lambda>inventory. get_count_for_features posFeatures negFeatures inventory parses - target)
           op inventories [])"

definition phoneme_query ::
  "string \<Rightarrow> goint \<Rightarrow> string \<Rightarrow> lang_entry list \<Rightarrow> fatal + goint list" where
  "phoneme_query op target phoneme inventories =
     select_languages (\<lambda>inventory. get_count_for_phoneme phoneme inventory - target)
       op inventories []"

subsection \<open>The contract of the loop\<close>

definition selected_entries ::
  "(segment list \<Rightarrow> goint) \<Rightarrow> cmp_op \<Rightarrow> lang_entry list \<Rightarrow> lang_entry list" where
  "selected_entries diffOf c es = filter (\<lambda>(l, inventory). holds c (sint (diffOf inventory))) es"

definition select_spec ::
  "(segment list \<Rightarrow> goint) \<Rightarrow> string \<Rightarrow> lang_entry list \<Rightarrow> goint list \<Rightarrow> fatal + goint list" where
  "select_spec diffOf op es result =
     (if es = [] then Inr result
      else case parse_op op of
        None \<Rightarrow> Inl (OperatorNotRecognised op)
      | Some c \<Rightarrow>
          (case find (\<lambda>(l, inventory). isl (atoi l)) (selected_entries diffOf c es) of
             Some (l, inventory) \<Rightarrow> Inl (AtoiSyntaxOrRange l)
           | None \<Rightarrow> Inr (result @ map (\<lambda>(l, inventory). projr (atoi l)) (selected_entries diffOf c es))))"

text \<open>Two outcomes of a run are alike when both are fatal or both print the same multiset.\<close>

definition same_outcome :: "fatal + goint list \<Rightarrow> fatal + goint list \<Rightarrow> bool" where
  "same_outcome r r' =
     (case (r, r') of
        (Inl _, Inl _) \<Rightarrow> True
      | (Inr xs, Inr ys) \<Rightarrow> mset xs = mset ys
      | _ \<Rightarrow> False)"

lemma atoi_Inl: "atoi l = Inl e \<Longrightarrow> e = AtoiSyntaxOrRange l"
  by (auto simp: atoi_def Let_def split: if_splits)

lemma select_languages_spec:
  "select_languages diffOf op es result = select_spec diffOf op es result"
proof (induction es arbitrary: result)
  case Nil
  then show ?case by (simp add: select_spec_def)
next
  case (Cons e es)
  obtain l inventory where e: "e = (l, inventory)" by fastforce
  show ?case
  proof (cases "parse_op op")
    case None
    then show ?thesis by (simp add: e select_spec_def)
  next
    case (Some c)
    then show ?thesis
      using Cons.IH
      by (cases "atoi l")
         (auto simp: e select_spec_def selected_entries_def atoi_Inl split: option.splits)
  qed
qed

lemma select_languages_unknown_op:
  "parse_op op = None \<Longrightarrow> es \<noteq> [] \<Longrightarrow> select_languages d op es acc = Inl (OperatorNotRecognised op)"
  by (simp add: select_languages_spec select_spec_def)

lemma select_languages_all_numeric:
  assumes "parse_op op = Some c" "\<forall>(l, inventory) \<in> set es. \<not> isl (atoi l)"
  shows "select_languages d op es acc =
           Inr (acc @ map (\<lambda>(l, inventory). projr (atoi l)) (selected_entries d c es))"
proof -
  have "find (\<lambda>(l, inventory). isl (atoi l)) (selected_entries d c es) = None"
    using assms(2) by (auto simp: find_None_iff selected_entries_def)
  then show ?thesis
    using assms(1) by (simp add: select_languages_spec select_spec_def selected_entries_def)
qed

lemma selected_entries_cong:
  "\<forall>(l, inventory) \<in> set es. sint (d inventory) = g inventory \<Longrightarrow>
   selected_entries d c es = filter (\<lambda>(l, inventory). holds c (g inventory)) es"
  unfolding selected_entries_def by (rule filter_cong) auto

subsection \<open>Order of the map\<close>

lemma selected_entries_mset:
  "mset es = mset es' \<Longrightarrow> mset (selected_entries d c es) = mset (selected_entries d c es')"
  by (simp add: selected_entries_def mset_filter)

lemma select_spec_perm:
  assumes "mset es = mset es'"
  shows "same_outcome (select_spec d op es acc) (select_spec d op es' acc)"
proof -
  have nil: "es = [] \<longleftrightarrow> es' = []" using assms by (metis mset_zero_iff)
  show ?thesis
  proof (cases "es = [] \<or> parse_op op = None")
    case True
    with nil show ?thesis by (auto simp: select_spec_def same_outcome_def)
  next
    case False
    then obtain c where c: "parse_op op = Some c" and ne: "es \<noteq> []" "es' \<noteq> []"
      using nil by auto
    let ?P = "\<lambda>(l, inventory). isl (atoi l)"
    let ?f = "\<lambda>(l, inventory). projr (atoi l)"
    have m: "mset (selected_entries d c es) = mset (selected_entries d c es')"
      using assms by (rule selected_entries_mset)
    then have s: "set (selected_entries d c es) = set (selected_entries d c es')"
      by (metis set_mset_mset)
    have "find ?P (selected_entries d c es) = None \<longleftrightarrow> find ?P (selected_entries d c es') = None"
      using s by (simp add: find_None_iff)
    moreover have "mset (map ?f (selected_entries d c es)) = mset (map ?f (selected_entries d c es'))"
      using m by simp
    ultimately show ?thesis
      using c ne by (auto simp: select_spec_def same_outcome_def split: option.splits)
  qed
qed

text \<open>Two visiting orders of one Go map list the same entries.\<close>

lemma entries_mset_of_map:
  assumes "distinct (map fst es)" "distinct (map fst es')" "map_of es = map_of es'"
  shows "mset es = mset es'"
proof -
  have "set es = set es'" using assms by (simp add: map_of_inject_set)
  moreover have "distinct es" "distinct es'" using assms by (simp_all add: distinct_map)
  ultimately show ?thesis by (simp add: set_eq_iff_mset_eq_distinct)
qed

lemma queries_same_outcome:
  assumes "mset es = mset es'"
  shows "same_outcome (comparison_query op raw1 raw2 es parses) (comparison_query op raw1 raw2 es' parses)
    \<and> same_outcome (count_query op target raw es parses) (count_query op target raw es' parses)
    \<and> same_outcome (phoneme_query op target phoneme es) (phoneme_query op target phoneme es')"
  using select_spec_perm [OF assms]
  by (simp add: comparison_query_def count_query_def phoneme_query_def select_languages_spec
      split_def Let_def)

subsection \<open>Differences without and with wrap-around\<close>

lemma count_bounds:
  assumes "length inventory < 2 ^ 63"
  shows "0 \<le> int (count_matching p n inventory parses)"
    and "int (count_matching p n inventory parses) \<le> int (length inventory)"
    and "int (count_matching p n inventory parses) < 2 ^ 63"
proof -
  have le: "count_matching p n inventory parses \<le> length inventory"
    by (rule count_matching_le_length)
  then show "0 \<le> int (count_matching p n inventory parses)"
    and "int (count_matching p n inventory parses) \<le> int (length inventory)" by simp_all
  show "int (count_matching p n inventory parses) < 2 ^ 63"
    using assms le by (intro int_less_goint_bound) linarith
qed

lemma sint_count_diff:
  assumes "length inventory < 2 ^ 63"
  shows "sint (get_count_for_features p1 n1 inventory parses - get_count_for_features p2 n2 inventory parses)
       = int (count_matching p1 n1 inventory parses) - int (count_matching p2 n2 inventory parses)"
proof -
  let ?a = "get_count_for_features p1 n1 inventory parses"
  let ?b = "get_count_for_features p2 n2 inventory parses"
  have a: "sint ?a = int (count_matching p1 n1 inventory parses)"
    using assms by (rule sint_get_count_for_features)
  have b: "sint ?b = int (count_matching p2 n2 inventory parses)"
    using assms by (rule sint_get_count_for_features)
  have "goint_min \<le> sint ?a - sint ?b" and "sint ?a - sint ?b \<le> goint_max"
    using count_bounds [OF assms, of p1 n1 parses] count_bounds [OF assms, of p2 n2 parses]
    unfolding a b by linarith+
  then have "sint (?a - ?b) = sint ?a - sint ?b" by (rule sint_diff_goint_exact)
  with a b show ?thesis by simp
qed

lemma sint_count_minus_target:
  assumes "length inventory < 2 ^ 63" and "int (length inventory) - sint target \<le> goint_max"
  shows "sint (get_count_for_features p n inventory parses - target)
       = int (count_matching p n inventory parses) - sint target"
proof -
  let ?a = "get_count_for_features p n inventory parses"
  have a: "sint ?a = int (count_matching p n inventory parses)"
    using assms(1) by (rule sint_get_count_for_features)
  have "goint_min \<le> sint ?a - sint target" "sint ?a - sint target \<le> goint_max"
    using count_bounds [OF assms(1), of p n parses] sint_goint_range [of target] assms(2)
    unfolding a by linarith+
  then show ?thesis using a by (simp add: goint_bridge)
qed

lemma sint_phoneme_minus_target:
  assumes "goint_min + 1 < sint target"
  shows "sint (get_count_for_phoneme phoneme inventory - target)
       = (if phoneme \<in> set inventory then 1 else 0) - sint target"
proof -
  let ?a = "get_count_for_phoneme phoneme inventory"
  have a: "sint ?a = (if phoneme \<in> set inventory then 1 else 0)"
    by (rule sint_get_count_for_phoneme)
  have "goint_min \<le> sint ?a - sint target" "sint ?a - sint target \<le> goint_max"
    using assms sint_goint_range [of target] unfolding a by auto
  then show ?thesis using a by (simp add: goint_bridge)
qed

lemma sint_minus_min_target:
  assumes "0 \<le> sint a"
  shows "sint (a - word_of_int goint_min :: goint) = sint a - 2 ^ 63"
proof -
  have m: "sint (word_of_int goint_min :: goint) = goint_min" by simp
  have "goint_max < sint a - sint (word_of_int goint_min :: goint)" using assms unfolding m by simp
  from sint_diff_goint_overflow [OF this]
  have "sint (a - word_of_int goint_min) = sint a - goint_min - 2 ^ 64" by (simp only: m)
  then show ?thesis by simp
qed

lemma selected_entries_min_target_gt:
  assumes "\<forall>(l, inventory) \<in> set es. length inventory < 2 ^ 63"
  shows "selected_entries (\<lambda>inventory. get_count_for_features p n inventory parses
           - word_of_int goint_min) OpGt es = []"
proof -
  have "\<not> holds OpGt (sint (get_count_for_features p n inventory parses - word_of_int goint_min))"
    if "length inventory < 2 ^ 63" for inventory
  proof -
    let ?a = "get_count_for_features p n inventory parses"
    have a: "sint ?a = int (count_matching p n inventory parses)"
      using that by (rule sint_get_count_for_features)
    have "sint (?a - word_of_int goint_min) = sint ?a - 2 ^ 63"
      using count_bounds [OF that, of p n parses] a by (intro sint_minus_min_target) simp
    then show ?thesis using count_bounds [OF that, of p n parses] a by simp
  qed
  with assms show ?thesis by (auto simp: selected_entries_def filter_empty_conv)
qed

lemmas query_eval_simps = atoi_def decimal_value_def digit_value_def is_digit_def
  parse_op_def count_matching_def segment_matches_def parse_of_def
  read_one_set_of_features_def initialise_features_eq is_positive_tag_def trim_defs is_sign_def

subsection \<open>Properties of the query evaluator\<close>

text \<open>
  C3: the outcome of every query does not depend on the order in which Go visits the
  inventories map: two visiting orders of the same map (distinct keys, same lookup)
  are both fatal or both print the same multiset of identifiers.
\<close>

theorem queries_order_independent:
  assumes "distinct (map fst es)" "distinct (map fst es')" "map_of es = map_of es'"
  shows "same_outcome (comparison_query op raw1 raw2 es parses) (comparison_query op raw1 raw2 es' parses)
    \<and> same_outcome (count_query op target raw es parses) (count_query op target raw es' parses)
    \<and> same_outcome (phoneme_query op target phoneme es) (phoneme_query op target phoneme es')"
  using queries_same_outcome [OF entries_mset_of_map [OF assms]] .

theorem queries_order_independent_witness:
  "same_outcome (comparison_query ''='' [''+nasal''] [''+voice''] [(''1'', [''m'']), (''2'', [''b''])]
                   [''m'' \<mapsto> [''nasal''], ''b'' \<mapsto> [''voice'']])
                (comparison_query ''='' [''+nasal''] [''+voice''] [(''2'', [''b'']), (''1'', [''m''])]
                   [''m'' \<mapsto> [''nasal''], ''b'' \<mapsto> [''voice'']])
   \<and> same_outcome (count_query ''='' 1 [''+nasal''] [(''1'', [''m'']), (''2'', [''b''])]
                   [''m'' \<mapsto> [''nasal''], ''b'' \<mapsto> [''voice'']])
                (count_query ''='' 1 [''+nasal''] [(''2'', [''b'']), (''1'', [''m''])]
                   [''m'' \<mapsto> [''nasal''], ''b'' \<mapsto> [''voice'']])
   \<and> same_outcome (phoneme_query ''='' 1 ''m'' [(''1'', [''m'']), (''2'', [''b''])])
                (phoneme_query ''='' 1 ''m'' [(''2'', [''b'']), (''1'', [''m''])])"
proof -
  have m: "map_of [(''1'', [''m'']), (''2'', [''b''])] = map_of [(''2'', [''b'']), (''1'', [''m''])]"
    by (rule ext) simp
  have d: "distinct (map fst [(''1'', [''m'']), (''2'', [''b''])])"
    "distinct (map fst [(''2'', [''b'']), (''1'', [''m''])])" by simp_all
  from queries_order_independent [OF d m] show ?thesis .
qed

text \<open>
  C4: the comparison query selects exactly the languages whose two feature counts
  stand in the operator's relation, as unbounded integers, when the operator is known,
  every identifier is numeric and every inventory is shorter than \<open>2^63\<close>: the
  difference of two such counts never wraps.
\<close>

theorem comparison_query_exact:
  assumes "parse_op op = Some c"
    and "\<forall>(l, inventory) \<in> set es. \<not> isl (atoi l) \<and> length inventory < 2 ^ 63"
    and "read_one_set_of_features raw1 = (pos1, neg1)"
    and "read_one_set_of_features raw2 = (pos2, neg2)"
  shows "comparison_query op raw1 raw2 es parses =
    Inr (map (\<lambda>(l, inventory). projr (atoi l))
      (filter (\<lambda>(l, inventory). holds c (int (count_matching pos1 neg1 inventory parses)
                                         - int (count_matching pos2 neg2 inventory parses))) es))"
proof -
  have "\<forall>(l, inventory) \<in> set es. \<not> isl (atoi l)" using assms(2) by auto
  moreover have "\<forall>(l, inventory) \<in> set es.
      sint (get_count_for_features pos1 neg1 inventory parses
            - get_count_for_features pos2 neg2 inventory parses)
      = int (count_matching pos1 neg1 inventory parses) - int (count_matching pos2 neg2 inventory parses)"
    using assms(2) by (auto simp: sint_count_diff)
  ultimately show ?thesis
    using assms(1,3,4)
    by (simp add: comparison_query_def select_languages_all_numeric selected_entries_cong)
qed

theorem comparison_query_exact_witness:
  "comparison_query ''='' [''+voice''] [''+nasal''] [(''7'', [''m'', ''b'']), (''8'', [''m''])]
     [''m'' \<mapsto> [''nasal''], ''b'' \<mapsto> [''voice'']] = Inr [7]"
proof -
  have "comparison_query ''='' [''+voice''] [''+nasal''] [(''7'', [''m'', ''b'']), (''8'', [''m''])]
     [''m'' \<mapsto> [''nasal''], ''b'' \<mapsto> [''voice'']] =
    Inr (map (\<lambda>(l, inventory). projr (atoi l))
      (filter (\<lambda>(l, inventory). holds OpEq
          (int (count_matching [''voice''] [] inventory [''m'' \<mapsto> [''nasal''], ''b'' \<mapsto> [''voice'']])
           - int (count_matching [''nasal''] [] inventory [''m'' \<mapsto> [''nasal''], ''b'' \<mapsto> [''voice'']])))
        [(''7'', [''m'', ''b'']), (''8'', [''m''])]))"
    by (rule comparison_query_exact) (simp_all add: query_eval_simps)
  then show ?thesis by (simp add: query_eval_simps)
qed

text \<open>
  C5: the count query selects exactly the languages whose feature count stands in the
  operator's relation to the target, as unbounded integers, when the operator is known,
  every identifier is numeric and no inventory's length minus the target exceeds
  \<open>math.MaxInt64\<close> (in particular for every target \<open>\<ge> 0\<close>).
\<close>

theorem count_query_exact:
  assumes "parse_op op = Some c"
    and "\<forall>(l, inventory) \<in> set es. \<not> isl (atoi l) \<and> length inventory < 2 ^ 63
           \<and> int (length inventory) - sint target \<le> goint_max"
    and "initialise_features raw [] [] = (pos, neg)"
  shows "count_query op target raw es parses =
    Inr (map (\<lambda>(l, inventory). projr (atoi l))
      (filter (\<lambda>(l, inventory). holds c (int (count_matching pos neg inventory parses) - sint target)) es))"
proof -
  have "\<forall>(l, inventory) \<in> set es. \<not> isl (atoi l)" using assms(2) by auto
  moreover have "\<forall>(l, inventory) \<in> set es.
      sint (get_count_for_features pos neg inventory parses - target)
      = int (count_matching pos neg inventory parses) - sint target"
    using assms(2) by (auto simp: sint_count_minus_target)
  ultimately show ?thesis
    using assms(1,3)
    by (simp add: count_query_def select_languages_all_numeric selected_entries_cong)
qed

theorem count_query_exact_witness:
  "count_query ''>='' 2 [''+nasal''] [(''3'', [''m'', ''n'', ''p'']), (''4'', [''m'', ''p''])]
     [''m'' \<mapsto> [''nasal''], ''n'' \<mapsto> [''nasal'']] = Inr [3]"
proof -
  have "count_query ''>='' 2 [''+nasal''] [(''3'', [''m'', ''n'', ''p'']), (''4'', [''m'', ''p''])]
     [''m'' \<mapsto> [''nasal''], ''n'' \<mapsto> [''nasal'']] =
    Inr (map (\<lambda>(l, inventory). projr (atoi l))
      (filter (\<lambda>(l, inventory). holds OpGe
          (int (count_matching [''nasal''] [] inventory [''m'' \<mapsto> [''nasal''], ''n'' \<mapsto> [''nasal'']])
           - sint (2 :: goint)))
        [(''3'', [''m'', ''n'', ''p'']), (''4'', [''m'', ''p''])]))"
    by (rule count_query_exact) (simp_all add: query_eval_simps)
  then show ?thesis by (simp add: query_eval_simps)
qed

text \<open>
  C6: the phoneme query selects exactly the languages whose presence count (0 or 1)
  stands in the operator's relation to the target, as unbounded integers, when the
  operator is known, every identifier is numeric and the target is above
  \<open>math.MinInt64 + 1\<close>.
\<close>

theorem phoneme_query_exact:
  assumes "parse_op op = Some c"
    and "\<forall>(l, inventory) \<in> set es. \<not> isl (atoi l)"
    and "goint_min + 1 < sint target"
  shows "phoneme_query op target phoneme es =
    Inr (map (\<lambda>(l, inventory). projr (atoi l))
      (filter (\<lambda>(l, inventory). holds c ((if phoneme \<in> set inventory then 1 else 0) - sint target)) es))"
proof -
  have "selected_entries (\<lambda>inventory. get_count_for_phoneme phoneme inventory - target) c es
      = filter (\<lambda>(l, inventory). holds c ((if phoneme \<in> set inventory then 1 else 0) - sint target)) es"
    using assms(3) by (intro selected_entries_cong) (auto simp only: sint_phoneme_minus_target)
  with assms(1,2) show ?thesis
    by (simp add: phoneme_query_def select_languages_all_numeric)
qed

theorem phoneme_query_exact_witness:
  "phoneme_query ''>='' 1 ''p'' [(''1'', [''p'', ''t'', ''k'']), (''2'', [''t'', ''k''])] = Inr [1]"
proof -
  have "phoneme_query ''>='' 1 ''p'' [(''1'', [''p'', ''t'', ''k'']), (''2'', [''t'', ''k''])] =
    Inr (map (\<lambda>(l, inventory). projr (atoi l))
      (filter (\<lambda>(l, inventory). holds OpGe ((if ''p'' \<in> set inventory then 1 else 0) - sint (1 :: goint)))
        [(''1'', [''p'', ''t'', ''k'']), (''2'', [''t'', ''k''])]))"
    by (rule phoneme_query_exact) (simp_all add: query_eval_simps)
  then show ?thesis by (simp add: query_eval_simps)
qed

text \<open>
  C7: wrap-around in the count query. With the target \<open>math.MinInt64\<close>, the
  difference \<open>count - target\<close> overflows Go's \<open>int\<close> and turns negative, so the
  operator \<open>>\<close> selects no language at all, although every count is greater than
  the target.
\<close>

theorem count_query_min_target_selects_nothing:
  assumes "\<forall>(l, inventory) \<in> set es. length inventory < 2 ^ 63"
  shows "count_query ''>'' (word_of_int goint_min) raw es parses = Inr []"
proof -
  have "selected_entries (\<lambda>inventory. get_count_for_features p n inventory parses
          - word_of_int goint_min) OpGt es = []" for p n
    using assms by (rule selected_entries_min_target_gt)
  moreover have "parse_op ''>'' = Some OpGt" by (simp add: parse_op_def)
  ultimately show ?thesis
    by (simp add: count_query_def select_languages_spec select_spec_def split_def Let_def)
qed

theorem count_query_min_target_selects_nothing_witness:
  "count_query ''>'' (word_of_int goint_min) [''+nasal''] [(''1'', [''m''])] [''m'' \<mapsto> [''nasal'']] = Inr []
   \<and> int (count_matching [''nasal''] [] [''m''] [''m'' \<mapsto> [''nasal'']]) > goint_min"
proof -
  have "count_query ''>'' (word_of_int goint_min) [''+nasal''] [(''1'', [''m''])] [''m'' \<mapsto> [''nasal'']] = Inr []"
    by (rule count_query_min_target_selects_nothing) simp
  then show ?thesis by (simp add: count_matching_def segment_matches_def parse_of_def)
qed

text \<open>
  C8: wrap-around in the phoneme query. With the target \<open>math.MinInt64\<close>, both
  \<open>0 - target\<close> and \<open>1 - target\<close> overflow to negative values, so the operator
  \<open><\<close> selects every language (when all identifiers are numeric), although no
  presence count is below the target.
\<close>

theorem phoneme_query_min_target_selects_all:
  assumes "\<forall>(l, inventory) \<in> set es. \<not> isl (atoi l)"
  shows "phoneme_query ''<'' (word_of_int goint_min) phoneme es
           = Inr (map (\<lambda>(l, inventory). projr (atoi l)) es)"
proof -
  have "holds OpLt (sint (get_count_for_phoneme phoneme inventory - word_of_int goint_min))" for inventory
  proof -
    let ?a = "get_count_for_phoneme phoneme inventory"
    have a: "sint ?a = (if phoneme \<in> set inventory then 1 else 0)"
      by (rule sint_get_count_for_phoneme)
    have "sint (?a - word_of_int goint_min) = sint ?a - 2 ^ 63"
      using a by (intro sint_minus_min_target) simp
    then show ?thesis using a by simp
  qed
  then have "selected_entries (\<lambda>inventory. get_count_for_phoneme phoneme inventory
      - word_of_int goint_min) OpLt es = es"
    by (simp add: selected_entries_def)
  moreover have "parse_op ''<'' = Some OpLt" by (simp add: parse_op_def)
  ultimately show ?thesis
    using assms by (simp add: phoneme_query_def select_languages_all_numeric)
qed

theorem phoneme_query_min_target_selects_all_witness:
  "phoneme_query ''<'' (word_of_int goint_min) ''p'' [(''1'', [''t'']), (''2'', [''p''])] = Inr [1, 2]"
proof -
  have "phoneme_query ''<'' (word_of_int goint_min) ''p'' [(''1'', [''t'']), (''2'', [''p''])]
      = Inr (map (\<lambda>(l, inventory). projr (atoi l)) [(''1'', [''t'']), (''2'', [''p''])])"
    by (rule phoneme_query_min_target_selects_all) (simp add: query_eval_simps)
  then show ?thesis by (simp add: query_eval_simps)
qed

text \<open>
  C9: an unrecognised operator is fatal for every query as soon as the inventories map
  has an entry: no identifier is printed.
\<close>

theorem queries_unknown_operator:
  assumes "parse_op op = None" and "es \<noteq> []"
  shows "comparison_query op raw1 raw2 es parses = Inl (OperatorNotRecognised op)
    \<and> count_query op target raw es parses = Inl (OperatorNotRecognised op)
    \<and> phoneme_query op target phoneme es = Inl (OperatorNotRecognised op)"
  using assms
  by (simp add: comparison_query_def count_query_def phoneme_query_def select_languages_unknown_op
      split_def Let_def)

theorem queries_unknown_operator_witness:
  "comparison_query ''!='' [''+voice''] [''+nasal''] [(''1'', [''m''])] Map.empty
     = Inl (OperatorNotRecognised ''!='')
   \<and> count_query ''!='' 0 [''+voice''] [(''1'', [''m''])] Map.empty = Inl (OperatorNotRecognised ''!='')
   \<and> phoneme_query ''!='' 0 ''m'' [(''1'', [''m''])] = Inl (OperatorNotRecognised ''!='')"
  by (rule queries_unknown_operator) (simp_all add: parse_op_def)

lemma select_languages_unselected:
  assumes "check_diff op (d i) = Inr False"
  shows "select_languages d op (es1 @ (l, i) # es2) acc = select_languages d op (es1 @ (l', i) # es2) acc"
proof (induction es1 arbitrary: acc)
  case Nil
  then show ?case using assms by simp
next
  case (Cons e es1)
  obtain k inv where e: "e = (k, inv)" by fastforce
  show ?case
    using Cons.IH by (simp add: e split: sum.split)
qed

text \<open>
  C10: an identifier is converted only when its language is selected: wherever a
  language stands in the map's visiting order, if \<open>CheckDiff\<close> does not select it, its
  identifier (numeric or not, any string at all) has no effect on the outcome of the
  selection loop, so it never makes the run fatal; and a selected language whose
  identifier \<open>strconv.Atoi\<close> rejects makes the loop fatal with that error.
\<close>

theorem unselected_identifier_not_checked:
  "(check_diff op (d i) = Inr False \<longrightarrow>
      select_languages d op (es1 @ (l, i) # es2) acc = select_languages d op (es1 @ (l', i) # es2) acc)
   \<and> (check_diff op (d i) = Inr True \<and> atoi l = Inl e \<longrightarrow>
      select_languages d op ((l, i) # es2) acc = Inl e)"
  using select_languages_unselected [of op d i es1 l es2 acc l'] by simp

theorem unselected_identifier_not_checked_witness:
  "select_languages (\<lambda>inventory. word_of_nat (length inventory)) ''='' ([(''1'', [])] @ (''L1'', [''m'']) # []) []
     = select_languages (\<lambda>inventory. word_of_nat (length inventory)) ''='' ([(''1'', [])] @ (''2'', [''m'']) # []) []
   \<and> select_languages (\<lambda>inventory. word_of_nat (length inventory)) ''='' ((''L1'', []) # []) []
     = Inl (AtoiSyntaxOrRange ''L1'')"
proof -
  have "check_diff ''='' (word_of_nat (length [''m''])) = Inr False"
    "check_diff ''='' (word_of_nat (length ([] :: string list))) = Inr True"
    "atoi ''L1'' = Inl (AtoiSyntaxOrRange ''L1'')"
    by (simp_all add: check_diff_def query_eval_simps)
  then show ?thesis
    using unselected_identifier_not_checked [of "''=''" "\<lambda>inventory. word_of_nat (length inventory)" "[''m'']"
        "[(''1'', [])]" "''L1''" "[]" "[]" "''2''"]
      unselected_identifier_not_checked [of "''=''" "\<lambda>inventory. word_of_nat (length inventory)" "[]"
        "[]" "''L1''" "[]" "[]" "''2''" "AtoiSyntaxOrRange ''L1''"]
    by simp
qed

end
