(* ===== verification/Output.thy ===== *)
theory Output
  imports Strconv
begin

text \<open>
  What the query programs write to standard output. Each \<open>main\<close> ends with
  \<open>output, err := json.Marshal(result)\<close> and \<open>fmt.Println(string(output))\<close>.
  \<open>result\<close> starts as the non-nil empty slice \<open>[]int{}\<close>, so Go's array encoder
  writes \<open>[\<close>, the elements in decimal with a comma before every element after the
  first, and \<open>]\<close> (never \<open>null\<close>); \<open>Println\<close> adds a newline. A run that ends in
  \<open>log.Fatal\<close> writes its diagnostic to standard error and nothing to standard
  output, so \<open>print_result\<close> of an \<open>Inl\<close> is the empty string.
  \<open>decode_int_array\<close> is the reading a consumer applies to that array (split at the
  commas, \<open>strconv.Atoi\<close> on each element); the roundtrip shows that it recovers
  exactly the printed identifiers, in order.
\<close>

definition marshal_elems :: "goint list \<Rightarrow> string" where
  "marshal_elems xs =
     (case xs of
        [] \<Rightarrow> []
      | x # rest \<Rightarrow> format_int x @ concat (map (\<lambda>y. CHR '','' # format_int y) rest))"

definition marshal_int_slice :: "goint list \<Rightarrow> string" where
  "marshal_int_slice xs = CHR ''['' # marshal_elems xs @ '']''"

definition print_result :: "fatal + goint list \<Rightarrow> string" where
  "print_result r = (case r of Inl _ \<Rightarrow> [] | Inr result \<Rightarrow> marshal_int_slice result @ [CHR 10])"

fun split_commas :: "string \<Rightarrow> string list" where
  "split_commas [] = [[]]"
| "split_commas (c # cs) =
     (let r = split_commas cs in if c = CHR '','' then [] # r else (c # hd r) # tl r)"

definition decode_int_array :: "string \<Rightarrow> goint list option" where
  "decode_int_array s =
     (if length s < 2 \<or> hd s \<noteq> CHR ''['' \<or> last s \<noteq> CHR '']'' then None
      else let inner = butlast (tl s) in
        if inner = [] then Some []
        else let rs = map atoi (split_commas inner) in
          if list_all (\<lambda>r. \<not> isl r) rs then Some (map projr rs) else None)"

subsection \<open>Splitting at commas\<close>

lemma split_commas_ne: "split_commas s \<noteq> []"
  by (induction s) (auto simp: Let_def)

lemma split_commas_word_append:
  "CHR '','' \<notin> set w \<Longrightarrow>
   split_commas (w @ cs) = (w @ hd (split_commas cs)) # tl (split_commas cs)"
  by (induction w) (auto simp: Let_def split_commas_ne)

lemma split_commas_word: "CHR '','' \<notin> set w \<Longrightarrow> split_commas w = [w]"
  using split_commas_word_append [of w "[]"] by simp

lemma split_commas_joined:
  assumes "CHR '','' \<notin> set w" and "\<forall>v \<in> set ws. CHR '','' \<notin> set v"
  shows "split_commas (w @ concat (map (\<lambda>v. CHR '','' # v) ws)) = w # ws"
  using assms
proof (induction ws arbitrary: w)
  case Nil
  then show ?case by (simp add: split_commas_word)
next
  case (Cons v ws)
  have "split_commas (v @ concat (map (\<lambda>v. CHR '','' # v) ws)) = v # ws"
    using Cons.prems by (intro Cons.IH) simp_all
  then show ?case
    using Cons.prems by (simp add: split_commas_word_append Let_def)
qed

lemma format_nat_no_comma: "CHR '','' \<notin> set (format_nat n)"
  using format_nat_digits [of n] by (auto simp: list_all_iff is_digit_def)

lemma format_int_no_comma: "CHR '','' \<notin> set (format_int w)"
  using format_nat_no_comma by (simp add: format_int_def)

lemma format_int_ne: "format_int w \<noteq> []"
  using format_nat_digits by (simp add: format_int_def)

lemma decode_marshal: "decode_int_array (marshal_int_slice xs) = Some xs"
proof (cases xs)
  case Nil
  then show ?thesis by (simp add: decode_int_array_def marshal_int_slice_def marshal_elems_def)
next
  case (Cons x rest)
  let ?inner = "format_int x @ concat (map (\<lambda>y. CHR '','' # format_int y) rest)"
  have m: "marshal_int_slice xs = CHR ''['' # ?inner @ [CHR '']'']"
    using Cons by (simp add: marshal_int_slice_def marshal_elems_def)
  have split: "split_commas ?inner = format_int x # map format_int rest"
    using split_commas_joined [of "format_int x" "map format_int rest"]
    by (simp add: format_int_no_comma comp_def)
  have ne: "?inner \<noteq> []" using format_int_ne [of x] by simp
  have b: "butlast (tl (marshal_int_slice xs)) = ?inner"
    unfolding m by (simp only: list.sel(3) butlast_snoc)
  have h: "\<not> length (marshal_int_slice xs) < 2" "hd (marshal_int_slice xs) = CHR ''[''"
    "last (marshal_int_slice xs) = CHR '']''"
    using ne unfolding m by simp_all
  show ?thesis
    unfolding decode_int_array_def Let_def b
    using Cons split ne h by (simp add: atoi_format_int comp_def list_all_iff)
qed

lemma decode_int_array_Nil [simp]: "decode_int_array [] = None"
  by (simp add: decode_int_array_def)

subsection \<open>Properties of the output\<close>

text \<open>
  C26: the line a run prints is read back, by dropping the newline, splitting the array
  at its commas and \<open>strconv.Atoi\<close> on each element, as exactly the identifiers of
  the result slice in their order (the empty slice included); the empty output of a
  fatal run reads as no array at all.
\<close>

theorem decode_printed_output:
  "decode_int_array (butlast (print_result r)) = (case r of Inl _ \<Rightarrow> None | Inr xs \<Rightarrow> Some xs)"
  by (cases r) (simp_all add: print_result_def decode_marshal)

end
