(* ===== verification/Utf8.thy ===== *)
theory Utf8
  imports Prelude
begin

text \<open>
  UTF-8 as Go's \<open>unicode/utf8\<close> package reads and writes it, which both input
  paths of the query programs rely on: \<open>fmt.Scanf\<close> reads standard input one rune at
  a time and writes each rune of a word back with \<open>utf8.EncodeRune\<close>, and
  \<open>json.Unmarshal\<close> coerces the bytes of every JSON string to well-formed UTF-8.
  \<open>decode_rune\<close> is \<open>utf8.DecodeRune\<close>: the code point at the head of a byte
  string and the number of bytes it takes, or \<open>RuneError\<close> (U+FFFD) with size 1 on
  a byte that does not start a well-formed, shortest, non-surrogate encoding (size 0 on
  the empty input). \<open>encode_rune\<close> is \<open>utf8.EncodeRune\<close>, which writes U+FFFD for
  a surrogate or a value above U+10FFFF. \<open>runes\<close> cuts a byte string into the runes
  Go reads from it, each with the bytes it was read from. The lemmas show that the two
  functions are inverse where Go's documentation says they are, with the digit arithmetic
  of the 2-, 3- and 4-byte forms written out.
\<close>

type_synonym rune = "nat \<times> string"

abbreviation rune_error :: nat where
  "rune_error \<equiv> 0xFFFD"

definition byte :: "char \<Rightarrow> nat" where
  "byte c = of_char c"

definition in_range :: "nat \<Rightarrow> nat \<Rightarrow> char \<Rightarrow> bool" where
  "in_range lo hi c \<longleftrightarrow> lo \<le> byte c \<and> byte c \<le> hi"

fun decode_rune :: "string \<Rightarrow> nat \<times> nat" where
  "decode_rune [] = (rune_error, 0)"
| "decode_rune (c0 # cs) =
     (let b0 = byte c0 in
      if b0 < 0x80 then (b0, 1)
      else if b0 < 0xC2 \<or> 0xF4 < b0 then (rune_error, 1)
      else if b0 < 0xE0 then
        (case cs of
           c1 # _ \<Rightarrow>
             if in_range 0x80 0xBF c1 then ((b0 - 0xC0) * 0x40 + (byte c1 - 0x80), 2)
             else (rune_error, 1)
         | _ \<Rightarrow> (rune_error, 1))
      else if b0 < 0xF0 then
        (case cs of
           c1 # c2 # _ \<Rightarrow>
             if in_range (if b0 = 0xE0 then 0xA0 else 0x80) (if b0 = 0xED then 0x9F else 0xBF) c1
                \<and> in_range 0x80 0xBF c2
             then ((b0 - 0xE0) * 0x1000 + (byte c1 - 0x80) * 0x40 + (byte c2 - 0x80), 3)
             else (rune_error, 1)
         | _ \<Rightarrow> (rune_error, 1))
      else
        (case cs of
           c1 # c2 # c3 # _ \<Rightarrow>
             if in_range (if b0 = 0xF0 then 0x90 else 0x80) (if b0 = 0xF4 then 0x8F else 0xBF) c1
                \<and> in_range 0x80 0xBF c2 \<and> in_range 0x80 0xBF c3
             then ((b0 - 0xF0) * 0x40000 + (byte c1 - 0x80) * 0x1000 + (byte c2 - 0x80) * 0x40
                   + (byte c3 - 0x80), 4)
             else (rune_error, 1)
         | _ \<Rightarrow> (rune_error, 1)))"

definition encode_rune :: "nat \<Rightarrow> string" where
  "encode_rune r =
     (if r \<le> 0x7F then [char_of r]
      else if r \<le> 0x7FF then [char_of (0xC0 + r div 0x40), char_of (0x80 + r mod 0x40)]
      else if (0xD800 \<le> r \<and> r \<le> 0xDFFF) \<or> 0x10FFFF < r then
        [char_of (0xEF :: nat), char_of (0xBF :: nat), char_of (0xBD :: nat)]
      else if r \<le> 0xFFFF then
        [char_of (0xE0 + r div 0x1000), char_of (0x80 + r div 0x40 mod 0x40), char_of (0x80 + r mod 0x40)]
      else
        [char_of (0xF0 + r div 0x40000), char_of (0x80 + r div 0x1000 mod 0x40),
         char_of (0x80 + r div 0x40 mod 0x40), char_of (0x80 + r mod 0x40)])"

fun runes :: "string \<Rightarrow> rune list" where
  "runes [] = []"
| "runes (c # cs) =
     (let n = snd (decode_rune (c # cs))
      in (fst (decode_rune (c # cs)), take n (c # cs)) # runes (drop (n - 1) cs))"

text \<open>
  A Unicode scalar value is a code point that is not a surrogate. \<open>valid_utf8\<close> is
  \<open>utf8.ValidString\<close>: reading the string rune by rune never meets a byte that
  \<open>DecodeRune\<close> rejects (U+FFFD with size 1). \<open>scalar_of\<close> is the scalar
  value \<open>EncodeRune\<close> writes for a code point.
\<close>

definition scalar :: "nat \<Rightarrow> bool" where
  "scalar r \<longleftrightarrow> r \<le> 0x10FFFF \<and> \<not> (0xD800 \<le> r \<and> r \<le> 0xDFFF)"

definition scalar_of :: "nat \<Rightarrow> nat" where
  "scalar_of r = (if scalar r then r else rune_error)"

definition valid_utf8 :: "string \<Rightarrow> bool" where
  "valid_utf8 s \<longleftrightarrow> list_all (\<lambda>(r, bs). \<not> (r = rune_error \<and> length bs = 1)) (runes s)"

subsection \<open>Reading runes\<close>

lemma decode_rune_size: "s \<noteq> [] \<Longrightarrow> 1 \<le> snd (decode_rune s) \<and> snd (decode_rune s) \<le> length s"
  by (cases s rule: decode_rune.cases) (auto simp: Let_def split: list.splits)

lemma decode_rune_ascii [simp]: "byte c < 0x80 \<Longrightarrow> decode_rune (c # cs) = (byte c, 1)"
  by simp

declare decode_rune.simps(2) [simp del]

lemma runes_Cons:
  assumes "decode_rune (c # cs) = (r, n)"
  shows "runes (c # cs) = (r, take n (c # cs)) # runes (drop n (c # cs))"
proof -
  have "1 \<le> n" using decode_rune_size [of "c # cs"] assms by simp
  then show ?thesis using assms by (cases n) simp_all
qed

declare runes.simps(2) [simp del]

lemma runes_ascii [simp]: "byte c < 0x80 \<Longrightarrow> runes (c # cs) = (byte c, [c]) # runes cs"
  by (simp add: runes_Cons)

lemma concat_runes [simp]: "concat (map snd (runes s)) = s"
proof (induction s rule: runes.induct)
  case (2 c cs)
  obtain r n where d: "decode_rune (c # cs) = (r, n)" by fastforce
  have n: "1 \<le> n" using decode_rune_size [of "c # cs"] d by simp
  from "2.IH" d have "concat (map snd (runes (drop (n - 1) cs))) = drop (n - 1) cs" by simp
  with n have "concat (map snd (runes (drop n (c # cs)))) = drop n (c # cs)" by (cases n) auto
  then show ?case by (simp add: runes_Cons [OF d])
qed simp

lemma runes_suffix: "runes s = rs @ rs' \<Longrightarrow> runes (concat (map snd rs')) = rs'"
proof (induction s arbitrary: rs rule: runes.induct)
  case (2 c cs)
  obtain r n where d: "decode_rune (c # cs) = (r, n)" by fastforce
  have n: "1 \<le> n" using decode_rune_size [of "c # cs"] d by simp
  show ?case
  proof (cases rs)
    case Nil
    then show ?thesis using "2.prems" by (metis append_Nil concat_runes)
  next
    case (Cons x xs)
    with "2.prems" have "runes (drop n (c # cs)) = xs @ rs'" by (simp add: runes_Cons [OF d])
    with n have "runes (drop (n - 1) cs) = xs @ rs'" by (cases n) auto
    with "2.IH" d show ?thesis by simp
  qed
qed simp

lemma encode_decode_ascii: "byte c < 0x80 \<Longrightarrow> encode_rune (byte c) = [c]"
  by (simp add: encode_rune_def byte_def)

subsection \<open>Writing runes\<close>


lemma byte_char_of [simp]: "n < 256 \<Longrightarrow> byte (char_of n) = n"
  by (simp add: byte_def of_char_of)

lemma decode_encode_1: "r \<le> 0x7F \<Longrightarrow> decode_rune (encode_rune r @ s) = (r, 1)"
  by (simp add: encode_rune_def)

lemma decode_encode_2: "0x7F < r \<Longrightarrow> r \<le> 0x7FF \<Longrightarrow> decode_rune (encode_rune r @ s) = (r, 2)"
proof -
  assume a: "0x7F < r" "r \<le> 0x7FF"
  have b0: "byte (char_of (0xC0 + r div 0x40)) = 0xC0 + r div 0x40" using a by simp
  have b1: "byte (char_of (0x80 + r mod 0x40)) = 0x80 + r mod 0x40" by simp
  have "0xC2 \<le> 0xC0 + r div 0x40" "0xC0 + r div 0x40 < 0xE0" using a by auto
  then show ?thesis using a
    by (simp add: encode_rune_def decode_rune.simps(2) b0 b1 in_range_def Let_def)
qed

lemma digits_64_2: "(r div 0x1000) * 0x1000 + (r div 0x40 mod 0x40) * 0x40 + r mod 0x40 = (r::nat)"
proof -
  have "r mod 0x1000 = 0x40 * (r div 0x40 mod 0x40) + r mod 0x40"
    using mod_mult2_eq [of r 64 64] by simp
  moreover have "r = 0x1000 * (r div 0x1000) + r mod 0x1000" by simp
  ultimately show ?thesis by linarith
qed

lemma decode_encode_3:
  assumes "0x7FF < r" "r \<le> 0xFFFF" "\<not> (0xD800 \<le> r \<and> r \<le> 0xDFFF)"
  shows "decode_rune (encode_rune r @ s) = (r, 3)"
proof -
  have b: "byte (char_of (0xE0 + r div 0x1000)) = 0xE0 + r div 0x1000"
    "byte (char_of (0x80 + r div 0x40 mod 0x40)) = 0x80 + r div 0x40 mod 0x40"
    "byte (char_of (0x80 + r mod 0x40)) = 0x80 + r mod 0x40"
    using assms by simp_all
  have r: "(r div 0x1000) * 0x1000 + (r div 0x40 mod 0x40) * 0x40 + r mod 0x40 = r"
    by (rule digits_64_2)
  have lo: "r div 0x1000 = 0 \<Longrightarrow> 0x20 \<le> r div 0x40 mod 0x40" using assms(1) by simp
  have hi: "r div 0x40 mod 0x40 \<le> 0x1F" if h: "r div 0x1000 = 0xD"
  proof -
    have m: "r mod 0x1000 = 0x40 * (r div 0x40 mod 0x40) + r mod 0x40"
      using mod_mult2_eq [of r 64 64] by simp
    have "r = 0x1000 * (r div 0x1000) + r mod 0x1000" by simp
    then have "r mod 0x1000 < 0x800" using h assms(3) by linarith
    then show ?thesis using m by linarith
  qed
  have e: "encode_rune r = [char_of (0xE0 + r div 0x1000), char_of (0x80 + r div 0x40 mod 0x40), char_of (0x80 + r mod 0x40)]"
    using assms by (auto simp: encode_rune_def)
  have "r mod 0x40 \<le> 0x3F" "r div 0x40 mod 0x40 \<le> 0x3F"
    using mod_less_divisor [of 64 r] mod_less_divisor [of 64 "r div 64"] by linarith+
  moreover have "r div 0x1000 < 0x10" "r div 0x1000 = 0 \<Longrightarrow> r div 0x40 \<le> 0x3F"
    using assms(2) by (simp_all add: div_mult2_eq [of r 64 64, simplified])
  ultimately show ?thesis
    using lo hi r
    by (simp add: e decode_rune.simps(2) b in_range_def Let_def)
qed

lemma digits_64_3:
  "(r div 0x40000) * 0x40000 + (r div 0x1000 mod 0x40) * 0x1000 + (r div 0x40 mod 0x40) * 0x40
   + r mod 0x40 = (r::nat)"
proof -
  have "r mod 0x40000 = 0x1000 * (r div 0x1000 mod 0x40) + r mod 0x1000"
    using mod_mult2_eq [of r 4096 64] by simp
  moreover have "r = 0x40000 * (r div 0x40000) + r mod 0x40000" by simp
  moreover have "(r div 0x1000) * 0x1000 + (r div 0x40 mod 0x40) * 0x40 + r mod 0x40 = r"
    by (rule digits_64_2)
  moreover have "r = 0x1000 * (r div 0x1000) + r mod 0x1000" by simp
  ultimately show ?thesis by linarith
qed

lemma decode_encode_4:
  assumes "0xFFFF < r" "r \<le> 0x10FFFF"
  shows "decode_rune (encode_rune r @ s) = (r, 4)"
proof -
  have b: "byte (char_of (0xF0 + r div 0x40000)) = 0xF0 + r div 0x40000"
    "byte (char_of (0x80 + r div 0x1000 mod 0x40)) = 0x80 + r div 0x1000 mod 0x40"
    "byte (char_of (0x80 + r div 0x40 mod 0x40)) = 0x80 + r div 0x40 mod 0x40"
    "byte (char_of (0x80 + r mod 0x40)) = 0x80 + r mod 0x40"
    using assms by simp_all
  have e: "encode_rune r = [char_of (0xF0 + r div 0x40000), char_of (0x80 + r div 0x1000 mod 0x40),
      char_of (0x80 + r div 0x40 mod 0x40), char_of (0x80 + r mod 0x40)]"
    using assms by (auto simp: encode_rune_def)
  have m: "r mod 0x40 \<le> 0x3F" "r div 0x40 mod 0x40 \<le> 0x3F" "r div 0x1000 mod 0x40 \<le> 0x3F"
    using mod_less_divisor [of 64 r] mod_less_divisor [of 64 "r div 64"]
      mod_less_divisor [of 64 "r div 4096"] by linarith+
  have k: "r div 0x40000 \<le> 4" using assms(2) by simp
  have mk: "r mod 0x40000 = 0x1000 * (r div 0x1000 mod 0x40) + r mod 0x1000"
    using mod_mult2_eq [of r 4096 64] by simp
  have r0: "r = 0x40000 * (r div 0x40000) + r mod 0x40000" by simp
  have "r mod 0x1000 < 0x1000" by simp
  then have lo: "r div 0x40000 = 0 \<Longrightarrow> 0x10 \<le> r div 0x1000 mod 0x40"
    using assms(1) mk r0 by linarith
  have hi: "r div 0x40000 = 4 \<Longrightarrow> r div 0x1000 mod 0x40 \<le> 0xF"
    using assms(2) mk r0 by linarith
  show ?thesis
    using lo hi k m digits_64_3 [of r]
    by (simp add: e decode_rune.simps(2) b in_range_def Let_def)
qed

lemma encode_rune_length: "1 \<le> length (encode_rune r) \<and> length (encode_rune r) \<le> 4"
  by (simp add: encode_rune_def)

lemma decode_encode_rune:
  assumes "scalar r"
  shows "decode_rune (encode_rune r @ s) = (r, length (encode_rune r))"
proof -
  consider "r \<le> 0x7F" | "0x7F < r" "r \<le> 0x7FF" | "0x7FF < r" "r \<le> 0xFFFF" | "0xFFFF < r"
    by linarith
  then show ?thesis
  proof cases
    case 1
    then have "length (encode_rune r) = 1" by (simp add: encode_rune_def)
    then show ?thesis using decode_encode_1 [OF 1] by simp
  next
    case 2
    then have "length (encode_rune r) = 2" by (simp add: encode_rune_def)
    then show ?thesis using decode_encode_2 [OF 2] by simp
  next
    case 3
    have ns: "\<not> (0xD800 \<le> r \<and> r \<le> 0xDFFF)" using assms by (simp add: scalar_def)
    with 3 have "length (encode_rune r) = 3" by (simp add: encode_rune_def)
    then show ?thesis using decode_encode_3 [OF 3 ns] by simp
  next
    case 4
    have le: "r \<le> 0x10FFFF" using assms by (simp add: scalar_def)
    with 4 have "length (encode_rune r) = 4" by (simp add: encode_rune_def)
    then show ?thesis using decode_encode_4 [OF 4 le] by simp
  qed
qed

lemma scalar_scalar_of: "scalar (scalar_of r)"
  by (simp add: scalar_of_def scalar_def)

lemma encode_scalar_of: "encode_rune (scalar_of r) = encode_rune r"
  by (auto simp: scalar_of_def scalar_def encode_rune_def)

lemma runes_encode: "runes (encode_rune r @ s) = (scalar_of r, encode_rune r) # runes s"
proof -
  obtain c cs where e: "encode_rune r = c # cs"
    using encode_rune_length [of r] by (cases "encode_rune r") auto
  have "decode_rune (c # cs @ s) = (scalar_of r, length (c # cs))"
    using decode_encode_rune [OF scalar_scalar_of, of r s] e by (simp add: encode_scalar_of)
  then show ?thesis using e by (simp add: runes_Cons)
qed

lemma scalar_rune_error: "\<not> (scalar_of r = rune_error \<and> length (encode_rune r) = 1)"
  by (auto simp: scalar_of_def scalar_def encode_rune_def)

lemma valid_utf8_Nil [simp]: "valid_utf8 []"
  by (simp add: valid_utf8_def)

lemma valid_utf8_ascii [simp]: "byte c < 0x80 \<Longrightarrow> valid_utf8 (c # s) \<longleftrightarrow> valid_utf8 s"
  by (simp add: valid_utf8_def)

lemma valid_utf8_encode [simp]: "valid_utf8 (encode_rune r @ s) \<longleftrightarrow> valid_utf8 s"
  using scalar_rune_error [of r] by (simp add: valid_utf8_def runes_encode)

subsection \<open>Decoding what was encoded, encoding what was decoded\<close>


lemma char_of_byte [simp]: "char_of (byte c) = c"
  by (simp add: byte_def)

lemma div_mod_64: "(b::nat) < 64 \<Longrightarrow> (a * 64 + b) div 64 = a \<and> (a * 64 + b) mod 64 = b"
  by simp

lemma encode_digits_2:
  assumes "2 \<le> a" "a < 32" "b < 64"
  shows "encode_rune (a * 64 + b) = [char_of (0xC0 + a), char_of (0x80 + b)]"
proof -
  have d: "(a * 64 + b) div 64 = a" "(a * 64 + b) mod 64 = b" using assms(3) by simp_all
  have "0x7F < a * 64 + b" "a * 64 + b \<le> 0x7FF" using assms by linarith+
  then show ?thesis unfolding encode_rune_def d by simp
qed

lemma encode_digits_3:
  assumes "a < 16" "b < 64" "c < 64" "0x7FF < a * 4096 + b * 64 + c"
    and "\<not> (0xD800 \<le> a * 4096 + b * 64 + c \<and> a * 4096 + b * 64 + c \<le> 0xDFFF)"
  shows "encode_rune (a * 4096 + b * 64 + c) = [char_of (0xE0 + a), char_of (0x80 + b), char_of (0x80 + c)]"
proof -
  let ?n = "a * 4096 + b * 64 + c"
  have n: "?n = (a * 64 + b) * 64 + c" by simp
  have q: "?n div 64 = a * 64 + b" "?n mod 64 = c"
    using n div_mod_64 [OF assms(3), of "a * 64 + b"] by metis+
  have "?n div 4096 = ?n div 64 div 64" using div_mult2_eq [of ?n 64 64] by simp
  then have d: "?n div 4096 = a" "?n div 64 mod 64 = b" using q assms(2) by simp_all
  have "?n \<le> 0xFFFF" using assms(1-3) by linarith
  then show ?thesis using assms(4,5) unfolding encode_rune_def d q(2) by simp
qed

lemma encode_digits_4:
  assumes "a < 5" "b < 64" "c < 64" "e < 64" "0xFFFF < a * 262144 + b * 4096 + c * 64 + e"
    "a * 262144 + b * 4096 + c * 64 + e \<le> 0x10FFFF"
  shows "encode_rune (a * 262144 + b * 4096 + c * 64 + e)
    = [char_of (0xF0 + a), char_of (0x80 + b), char_of (0x80 + c), char_of (0x80 + e)]"
proof -
  let ?n = "a * 262144 + b * 4096 + c * 64 + e"
  have n: "?n = (a * 4096 + b * 64 + c) * 64 + e" by simp
  have q: "?n div 64 = a * 4096 + b * 64 + c" "?n mod 64 = e"
    using n div_mod_64 [OF assms(4), of "a * 4096 + b * 64 + c"] by metis+
  have q2: "?n div 64 div 64 = a * 64 + b" "?n div 64 mod 64 = c"
    unfolding q(1) using assms(3) div_mod_64 [of c "a * 64 + b"] by (simp_all add: algebra_simps)
  have "?n div 4096 = ?n div 64 div 64" using div_mult2_eq [of ?n 64 64] by simp
  then have d1: "?n div 4096 mod 64 = b" using q2 assms(2) by simp
  have "?n div 262144 = ?n div 4096 div 64" using div_mult2_eq [of ?n 4096 64] by simp
  then have d0: "?n div 262144 = a" using q2 \<open>?n div 4096 = ?n div 64 div 64\<close> assms(2) by simp
  show ?thesis using assms(5,6) unfolding encode_rune_def d0 d1 q2(2) q(2) by simp
qed

lemma in_range_digit:
  "in_range lo hi c \<Longrightarrow> 0x80 \<le> lo \<Longrightarrow> hi \<le> 0xBF \<Longrightarrow>
   byte c = 0x80 + (byte c - 0x80) \<and> byte c - 0x80 < 64 \<and> lo - 0x80 \<le> byte c - 0x80 \<and> byte c - 0x80 \<le> hi - 0x80"
  by (auto simp: in_range_def)

lemma decode_valid_2:
  assumes "0xC2 \<le> byte c0" "byte c0 < 0xE0" "in_range 0x80 0xBF c1"
  shows "encode_rune ((byte c0 - 0xC0) * 0x40 + (byte c1 - 0x80)) = [c0, c1]"
proof -
  have c1: "byte c1 = 0x80 + (byte c1 - 0x80)" "byte c1 - 0x80 < 64"
    using in_range_digit [OF assms(3)] by simp_all
  have c0: "byte c0 = 0xC0 + (byte c0 - 0xC0)" using assms(1) by simp
  have "encode_rune ((byte c0 - 0xC0) * 64 + (byte c1 - 0x80))
      = [char_of (0xC0 + (byte c0 - 0xC0)), char_of (0x80 + (byte c1 - 0x80))]"
    by (rule encode_digits_2) (use assms(1,2) c1 in linarith)+
  then show ?thesis by (simp only: c0 [symmetric] c1(1) [symmetric] char_of_byte)
qed

lemma decode_valid_3:
  assumes "0xE0 \<le> byte c0" "byte c0 < 0xF0"
    and "in_range (if byte c0 = 0xE0 then 0xA0 else 0x80) (if byte c0 = 0xED then 0x9F else 0xBF) c1"
    and "in_range 0x80 0xBF c2"
  shows "encode_rune ((byte c0 - 0xE0) * 0x1000 + (byte c1 - 0x80) * 0x40 + (byte c2 - 0x80)) = [c0, c1, c2]"
proof -
  let ?a = "byte c0 - 0xE0" and ?b = "byte c1 - 0x80" and ?c = "byte c2 - 0x80"
  have c1: "byte c1 = 0x80 + ?b" "?b < 64"
    "byte c0 = 0xE0 \<Longrightarrow> 0x20 \<le> ?b" "byte c0 = 0xED \<Longrightarrow> ?b \<le> 0x1F"
    using in_range_digit [OF assms(3)] by (simp_all split: if_splits)
  have c2: "byte c2 = 0x80 + ?c" "?c < 64" using in_range_digit [OF assms(4)] by simp_all
  have c0: "byte c0 = 0xE0 + ?a" "?a < 16" using assms(1,2) by simp_all
  have lo: "0x7FF < ?a * 4096 + ?b * 64 + ?c"
  proof (cases "?a = 0")
    case True
    then have "byte c0 = 0xE0" using c0(1) by simp
    then show ?thesis using True c1(3) by simp
  next
    case False
    then show ?thesis by simp
  qed
  have ns: "\<not> (0xD800 \<le> ?a * 4096 + ?b * 64 + ?c \<and> ?a * 4096 + ?b * 64 + ?c \<le> 0xDFFF)"
  proof
    assume h: "0xD800 \<le> ?a * 4096 + ?b * 64 + ?c \<and> ?a * 4096 + ?b * 64 + ?c \<le> 0xDFFF"
    then have "?a = 13" using c1(2) c2(2) by linarith
    then have "byte c0 = 0xED" using c0(1) by simp
    then show False using h c1(4) c2(2) \<open>?a = 13\<close> by linarith
  qed
  have "encode_rune (?a * 4096 + ?b * 64 + ?c)
      = [char_of (0xE0 + ?a), char_of (0x80 + ?b), char_of (0x80 + ?c)]"
    by (rule encode_digits_3 [OF c0(2) c1(2) c2(2) lo ns])
  then show ?thesis by (simp only: c0(1) [symmetric] c1(1) [symmetric] c2(1) [symmetric] char_of_byte)
qed

lemma decode_valid_4:
  assumes "0xF0 \<le> byte c0" "byte c0 \<le> 0xF4"
    and "in_range (if byte c0 = 0xF0 then 0x90 else 0x80) (if byte c0 = 0xF4 then 0x8F else 0xBF) c1"
    and "in_range 0x80 0xBF c2" "in_range 0x80 0xBF c3"
  shows "encode_rune ((byte c0 - 0xF0) * 0x40000 + (byte c1 - 0x80) * 0x1000 + (byte c2 - 0x80) * 0x40
           + (byte c3 - 0x80)) = [c0, c1, c2, c3]"
proof -
  let ?a = "byte c0 - 0xF0" and ?b = "byte c1 - 0x80" and ?c = "byte c2 - 0x80" and ?e = "byte c3 - 0x80"
  have c1: "byte c1 = 0x80 + ?b" "?b < 64"
    "byte c0 = 0xF0 \<Longrightarrow> 0x10 \<le> ?b" "byte c0 = 0xF4 \<Longrightarrow> ?b \<le> 0xF"
    using in_range_digit [OF assms(3)] by (simp_all split: if_splits)
  have c2: "byte c2 = 0x80 + ?c" "?c < 64" using in_range_digit [OF assms(4)] by simp_all
  have c3: "byte c3 = 0x80 + ?e" "?e < 64" using in_range_digit [OF assms(5)] by simp_all
  have c0: "byte c0 = 0xF0 + ?a" "?a < 5" using assms(1,2) by simp_all
  have lo: "0xFFFF < ?a * 262144 + ?b * 4096 + ?c * 64 + ?e"
  proof (cases "?a = 0")
    case True
    then have "byte c0 = 0xF0" using c0(1) by simp
    then show ?thesis using True c1(3) by simp
  next
    case False
    then show ?thesis by simp
  qed
  have hi: "?a * 262144 + ?b * 4096 + ?c * 64 + ?e \<le> 0x10FFFF"
  proof (cases "?a = 4")
    case True
    then have "byte c0 = 0xF4" using c0(1) by simp
    then show ?thesis using True c1(4) c2(2) c3(2) by simp
  next
    case False
    then show ?thesis using c0(2) c1(2) c2(2) c3(2) by simp
  qed
  have "encode_rune (?a * 262144 + ?b * 4096 + ?c * 64 + ?e)
      = [char_of (0xF0 + ?a), char_of (0x80 + ?b), char_of (0x80 + ?c), char_of (0x80 + ?e)]"
    by (rule encode_digits_4 [OF c0(2) c1(2) c2(2) c3(2) lo hi])
  then show ?thesis
    by (simp only: c0(1) [symmetric] c1(1) [symmetric] c2(1) [symmetric] c3(1) [symmetric] char_of_byte)
qed

lemma encode_decoded_rune:
  assumes "decode_rune (c0 # cs) = (q, n)" and "\<not> (q = rune_error \<and> n = 1)"
  shows "encode_rune q = take n (c0 # cs)"
  using assms
  apply (auto simp: decode_rune.simps(2) Let_def encode_decode_ascii not_less
      decode_valid_2 decode_valid_3 decode_valid_4 split: if_splits list.splits)
  subgoal for c1 c2 using decode_valid_3 [of c0 c1 c2] by simp
  subgoal for c1 c2 using decode_valid_3 [of c0 c1 c2] by simp
  subgoal for c1 c2 c3 using decode_valid_4 [of c0 c1 c2 c3] by simp
  subgoal for c1 c2 c3 using decode_valid_4 [of c0 c1 c2 c3] by simp
  done

subsection \<open>Valid UTF-8 reads rune by rune\<close>

lemma decode_rune_append:
  assumes "decode_rune t = (q, n)" and "t \<noteq> []" and "\<not> (q = rune_error \<and> n = 1)"
  shows "decode_rune (t @ s) = (q, n)"
proof -
  obtain c cs where t: "t = c # cs" using assms(2) by (cases t) auto
  have e: "encode_rune q = take n t" using encode_decoded_rune [OF assms(1) [unfolded t] assms(3)] t by simp
  have n: "1 \<le> n \<and> n \<le> length t" using decode_rune_size [OF assms(2)] assms(1) by simp
  have split: "t = encode_rune q @ drop n t" using e by simp
  have "decode_rune (encode_rune (scalar_of q) @ drop n t) = (scalar_of q, length (encode_rune q))"
    using decode_encode_rune [OF scalar_scalar_of, of q "drop n t"] by (simp add: encode_scalar_of)
  then have "decode_rune t = (scalar_of q, n)"
    using split e n by (metis encode_scalar_of length_take min.absorb2)
  then have q: "scalar_of q = q" using assms(1) by simp
  have "decode_rune (encode_rune (scalar_of q) @ drop n t @ s) = (scalar_of q, length (encode_rune q))"
    using decode_encode_rune [OF scalar_scalar_of, of q "drop n t @ s"] by (simp add: encode_scalar_of)
  then show ?thesis
    using split e n q by (metis append.assoc length_take min.absorb2)
qed

lemma valid_utf8_Cons:
  assumes "decode_rune (c # cs) = (q, n)"
  shows "valid_utf8 (c # cs) \<longleftrightarrow> \<not> (q = rune_error \<and> n = 1) \<and> valid_utf8 (drop n (c # cs))"
proof -
  have "length (take n (c # cs)) = n"
    using decode_rune_size [of "c # cs"] assms by simp
  then show ?thesis by (simp add: valid_utf8_def runes_Cons [OF assms])
qed

lemma runes_append_valid: "valid_utf8 w \<Longrightarrow> runes (w @ s) = runes w @ runes s"
proof (induction w rule: length_induct)
  case (1 w)
  show ?case
  proof (cases w)
    case (Cons c cs)
    obtain q n where d: "decode_rune (c # cs) = (q, n)" by fastforce
    have n: "1 \<le> n" "n \<le> length (c # cs)" using decode_rune_size [of "c # cs"] d by simp_all
    have v: "\<not> (q = rune_error \<and> n = 1)" "valid_utf8 (drop n (c # cs))"
      using "1.prems" valid_utf8_Cons [OF d] Cons by simp_all
    have d': "decode_rune (c # (cs @ s)) = (q, n)"
      using decode_rune_append [OF d _ v(1), of s] by simp
    have ih: "runes (drop n (c # cs) @ s) = runes (drop n (c # cs)) @ runes s"
      using "1.IH" v(2) n Cons by simp
    have td: "take n (c # cs @ s) = take n (c # cs)" "drop n (c # cs @ s) = drop n (c # cs) @ s"
      using take_append [of n "c # cs" s] drop_append [of n "c # cs" s] n(2) by simp_all
    show ?thesis
      using Cons runes_Cons [OF d] runes_Cons [OF d'] td ih by simp
  qed simp
qed

lemma written_runes_valid: "valid_utf8 w \<Longrightarrow> concat (map (\<lambda>r. encode_rune (fst r)) (runes w)) = w"
proof (induction w rule: length_induct)
  case (1 w)
  show ?case
  proof (cases w)
    case (Cons c cs)
    obtain q n where d: "decode_rune (c # cs) = (q, n)" by fastforce
    have n: "1 \<le> n" using decode_rune_size [of "c # cs"] d by simp
    have v: "\<not> (q = rune_error \<and> n = 1)" "valid_utf8 (drop n (c # cs))"
      using "1.prems" valid_utf8_Cons [OF d] Cons by simp_all
    have "concat (map (\<lambda>r. encode_rune (fst r)) (runes (drop n (c # cs)))) = drop n (c # cs)"
      using "1.IH" v(2) n Cons by simp
    then show ?thesis
      using Cons runes_Cons [OF d] encode_decoded_rune [OF d v(1)] by simp
  qed simp
qed

end
