(* ===== verification/Input.thy ===== *)
theory Input
  imports Utf8 Strconv "HOL-Library.Sublist"
begin

text \<open>
  How the query programs read standard input. Each \<open>main\<close> first calls
  \<open>fmt.Scanf("%s\n", &op)\<close>; the count and phoneme queries then call
  \<open>fmt.Scanf("%d\n", &target)\<close>, and the phoneme query
  \<open>fmt.Scanf("%s\n", &phoneme)\<close>. The comparison and count queries then wrap
  standard input in a \<open>bufio.Reader\<close> and take each feature line with
  \<open>ReadBytes('\n')\<close>, which is fatal (\<open>log.Fatal(err)\<close>) when the input ends
  before a newline.
  \<open>Scanf\<close> reads \<open>os.Stdin\<close> one rune at a time, with a one-rune pushback that
  lives only as long as the call, so a rune it looked at and pushed back when it gave up
  is lost to the next reader. Its error result is ignored by the programs: what matters
  is the value left in the variable (Go's zero value, \<open>""\<close> or \<open>0\<close>, when the
  verb failed) and the input left unread, the pair each definition returns.
  \<^item> \<open>skip_space\<close> is \<open>ss.SkipSpace\<close> in \<open>Scanf\<close> mode: it skips space runes and
    fails with "unexpected newline" on a newline, which it has consumed (\<open>Inl\<close>).
  \<^item> \<open>match_newline\<close> is the newline of the format (\<open>ss.advance\<close>): it skips
    spaces other than newline and consumes one more rune, which must be a newline for
    the call to succeed; either way that rune is gone.
  \<^item> \<open>scanf_word\<close> is \<open>%s\<close> into a \<open>string\<close> (\<open>convertString\<close>, \<open>token\<close>):
    the run of non-space runes after the spaces, each written back with
    \<open>EncodeRune\<close>.
  \<^item> \<open>scanf_int\<close> is \<open>%d\<close> into an \<open>int\<close> (\<open>scanInt\<close>): an optional sign, at
    least one decimal digit (else "expected integer", the offending rune lost), and
    \<open>strconv.ParseInt(tok, 10, 64)\<close>, here \<open>atoi\<close>, which rejects a value outside
    the 64-bit range (the rune after the digits is then lost).
  \<^item> \<open>read_bytes_line\<close> is \<open>ReadBytes('\n')\<close>: the line with its newline, or
    \<open>io.EOF\<close>.
\<close>

definition is_go_space :: "nat \<Rightarrow> bool" where
  "is_go_space r \<longleftrightarrow>
     (0x09 \<le> r \<and> r \<le> 0x0D) \<or> r = 0x20 \<or> r = 0x85 \<or> r = 0xA0 \<or> r = 0x1680
     \<or> (0x2000 \<le> r \<and> r \<le> 0x200A) \<or> r = 0x2028 \<or> r = 0x2029 \<or> r = 0x202F
     \<or> r = 0x205F \<or> r = 0x3000"

definition unread :: "rune list \<Rightarrow> string" where
  "unread rs = concat (map snd rs)"

fun skip_space :: "rune list \<Rightarrow> rune list + rune list" where
  "skip_space [] = Inr []"
| "skip_space (r # rs) =
     (if fst r = 0x0A then Inl rs
      else if is_go_space (fst r) then skip_space rs
      else Inr (r # rs))"

fun match_newline :: "rune list \<Rightarrow> rune list" where
  "match_newline [] = []"
| "match_newline (r # rs) =
     (if fst r \<noteq> 0x0A \<and> is_go_space (fst r) then match_newline rs else rs)"

definition not_space :: "rune \<Rightarrow> bool" where
  "not_space r \<longleftrightarrow> \<not> is_go_space (fst r)"

definition is_digit_rune :: "rune \<Rightarrow> bool" where
  "is_digit_rune r \<longleftrightarrow> 0x30 \<le> fst r \<and> fst r \<le> 0x39"

definition is_sign_rune :: "rune \<Rightarrow> bool" where
  "is_sign_rune r \<longleftrightarrow> fst r = 0x2B \<or> fst r = 0x2D"

definition written :: "rune list \<Rightarrow> string" where
  "written rs = concat (map (\<lambda>r. encode_rune (fst r)) rs)"

definition scanf_word :: "string \<Rightarrow> string \<times> string" where
  "scanf_word input =
     (case skip_space (runes input) of
        Inl rest \<Rightarrow> ([], unread rest)
      | Inr [] \<Rightarrow> ([], [])
      | Inr rs \<Rightarrow>
          (written (takeWhile not_space rs), unread (match_newline (dropWhile not_space rs))))"

definition scanf_int :: "string \<Rightarrow> goint \<times> string" where
  "scanf_int input =
     (case skip_space (runes input) of
        Inl rest \<Rightarrow> (0, unread rest)
      | Inr [] \<Rightarrow> (0, [])
      | Inr (r0 # rs0) \<Rightarrow>
          (let (sign, rs1) = (if is_sign_rune r0 then ([r0], rs0) else ([], r0 # rs0))
           in case rs1 of
                [] \<Rightarrow> (0, [])
              | r # rs2 \<Rightarrow>
                  if \<not> is_digit_rune r then (0, unread rs2)
                  else
                    (let ds = takeWhile is_digit_rune rs1;
                         rest = dropWhile is_digit_rune rs1
                     in case atoi (written (sign @ ds)) of
                          Inl _ \<Rightarrow> (0, unread (drop 1 rest))
                        | Inr v \<Rightarrow> (v, unread (match_newline rest)))))"

definition read_bytes_line :: "string \<Rightarrow> fatal + string \<times> string" where
  "read_bytes_line input =
     (if CHR 0x0A \<in> set input
      then Inr (takeWhile (\<lambda>c. c \<noteq> CHR 0x0A) input @ [CHR 0x0A],
                tl (dropWhile (\<lambda>c. c \<noteq> CHR 0x0A) input))
      else Inl ReadBytesEOF)"

subsection \<open>Reading ASCII lines\<close>

definition ascii :: "string \<Rightarrow> bool" where
  "ascii s \<longleftrightarrow> (\<forall>c \<in> set s. byte c < 0x80)"

definition ascii_runes :: "string \<Rightarrow> rune list" where
  "ascii_runes s = map (\<lambda>c. (byte c, [c])) s"

lemma ascii_simps [simp]: "ascii [] \<and> (ascii (c # s) \<longleftrightarrow> byte c < 0x80 \<and> ascii s)"
  by (simp add: ascii_def)

lemma unread_runes [simp]: "unread (runes s) = s"
  by (simp add: unread_def)

lemma runes_ascii_append: "ascii w \<Longrightarrow> runes (w @ s) = ascii_runes w @ runes s"
  by (induction w) (simp_all add: ascii_runes_def)

lemma written_ascii_runes: "ascii w \<Longrightarrow> written (ascii_runes w) = w"
  by (induction w) (simp_all add: ascii_runes_def written_def encode_decode_ascii)

lemma byte_newline [simp]: "byte (CHR 0x0A) = 0x0A"
  by (simp add: byte_def)

lemma is_go_space_newline [simp]: "is_go_space 0x0A"
  by (simp add: is_go_space_def)

lemma newline_runes [simp]: "runes (CHR 0x0A # s) = (0x0A, [CHR 0x0A]) # runes s"
  by simp

lemma take_drop_ascii_runes:
  assumes "\<forall>c \<in> set w. P (byte c, [c])" and "\<not> P r"
  shows "takeWhile P (ascii_runes w @ r # rs) = ascii_runes w"
    and "dropWhile P (ascii_runes w @ r # rs) = r # rs"
  using assms by (induction w) (simp_all add: ascii_runes_def)

lemma read_bytes_line_line:
  "CHR 0x0A \<notin> set l \<Longrightarrow> read_bytes_line (l @ CHR 0x0A # rest) = Inr (l @ [CHR 0x0A], rest)"
  by (simp add: read_bytes_line_def takeWhile_append dropWhile_append)

lemma digit_rune_facts:
  "is_digit c \<Longrightarrow> byte c < 0x80 \<and> is_digit_rune (byte c, [c]) \<and> \<not> is_sign_rune (byte c, [c])
     \<and> \<not> is_go_space (byte c) \<and> byte c \<noteq> 0x0A"
  by (simp add: is_digit_def byte_def is_digit_rune_def is_sign_rune_def is_go_space_def)

lemma scanf_word_Inr:
  "skip_space (runes input) = Inr rs \<Longrightarrow>
   scanf_word input = (written (takeWhile not_space rs), unread (match_newline (dropWhile not_space rs)))"
  by (cases rs) (simp_all add: scanf_word_def written_def unread_def)

lemma scanf_word_line:
  assumes "w \<noteq> []" and "ascii w" and "\<forall>c \<in> set w. \<not> is_go_space (byte c)"
  shows "scanf_word (w @ CHR 0x0A # rest) = (w, rest)"
proof -
  obtain c w' where w: "w = c # w'" using assms(1) by (cases w) auto
  have c: "byte c \<noteq> 0x0A" "\<not> is_go_space (byte c)" using assms(3) w by auto
  have r: "runes (w @ CHR 0x0A # rest) = ascii_runes w @ (0x0A, [CHR 0x0A]) # runes rest"
    using assms(2) by (simp add: runes_ascii_append)
  have sk: "skip_space (ascii_runes w @ (0x0A, [CHR 0x0A]) # runes rest)
              = Inr (ascii_runes w @ (0x0A, [CHR 0x0A]) # runes rest)"
    using c w by (simp add: ascii_runes_def)
  have ns: "\<forall>c \<in> set w. not_space (byte c, [c])" "\<not> not_space (0x0A, [CHR 0x0A])"
    using assms(3) by (simp_all add: not_space_def)
  from sk have "skip_space (runes (w @ CHR 0x0A # rest)) = Inr (ascii_runes w @ (0x0A, [CHR 0x0A]) # runes rest)"
    by (simp only: r)
  then show ?thesis
    using take_drop_ascii_runes [OF ns] written_ascii_runes [OF assms(2)]
    by (simp add: scanf_word_Inr unread_def)
qed

lemma scanf_word_last:
  assumes "w \<noteq> []" and "valid_utf8 w" and "list_all (\<lambda>r. \<not> is_go_space (fst r)) (runes w)"
    and "ends = [] \<or> ends = [CHR 0x0A]"
  shows "fst (scanf_word (w @ ends)) = w"
proof -
  have "runes w \<noteq> []" using assms(1) by (cases w) (simp_all add: runes.simps(2) Let_def)
  then obtain r rs where rw: "runes w = r # rs" by (cases "runes w") auto
  have r: "\<not> is_go_space (fst r)" "fst r \<noteq> 0x0A" using assms(3) rw by (auto simp: is_go_space_def)
  have e: "takeWhile not_space (runes ends) = []" using assms(4) by (auto simp: not_space_def)
  have tw: "takeWhile not_space (runes w @ runes ends) = runes w"
    using assms(3) e by (simp add: takeWhile_append list_all_iff not_space_def)
  have sk: "skip_space (runes (w @ ends)) = Inr (runes w @ runes ends)"
    using r rw runes_append_valid [OF assms(2)] by simp
  show ?thesis
    using scanf_word_Inr [OF sk] tw written_runes_valid [OF assms(2)] by (simp add: written_def)
qed

lemma scanf_int_token:
  assumes sk: "skip_space (runes input) = Inr (sr @ dr @ r # rs)"
    and sr: "sr = [] \<or> (\<exists>x. sr = [x] \<and> is_sign_rune x)"
    and dr: "dr \<noteq> []" "\<forall>x \<in> set dr. is_digit_rune x" and r: "\<not> is_digit_rune r"
  shows "scanf_int input =
           (case atoi (written (sr @ dr)) of
              Inl _ \<Rightarrow> (0, unread rs)
            | Inr v \<Rightarrow> (v, unread (match_newline (r # rs))))"
proof -
  obtain d dr' where d: "dr = d # dr'" using dr(1) by (cases dr) auto
  have nsd: "\<not> is_sign_rune d" "is_digit_rune d"
    using dr(2) d by (auto simp: is_digit_rune_def is_sign_rune_def)
  have ds': "\<forall>x \<in> set dr'. is_digit_rune x" using dr(2) d by simp
  have tw: "takeWhile is_digit_rune (dr' @ r # rs) = dr'"
    and dw: "dropWhile is_digit_rune (dr' @ r # rs) = r # rs"
    using ds' r by (simp_all add: takeWhile_append2 dropWhile_append2)
  from sr show ?thesis
  proof (elim disjE exE conjE)
    assume "sr = []"
    with sk nsd show ?thesis
      unfolding scanf_int_def d by (simp add: Let_def tw dw split: sum.split)
  next
    fix x assume "sr = [x]" "is_sign_rune x"
    with sk nsd show ?thesis
      unfolding scanf_int_def d by (simp add: Let_def tw dw split: sum.split)
  qed
qed

lemma scanf_int_line:
  assumes sg: "sg = [] \<or> sg = ''-'' \<or> sg = ''+''"
    and ds: "ds \<noteq> []" "list_all is_digit ds"
  shows "scanf_int (sg @ ds @ CHR 0x0A # rest) =
           ((case atoi (sg @ ds) of Inl _ \<Rightarrow> 0 | Inr v \<Rightarrow> v), rest)"
proof -
  have d: "\<forall>c \<in> set ds. byte c < 0x80 \<and> is_digit_rune (byte c, [c]) \<and> \<not> is_sign_rune (byte c, [c])
      \<and> \<not> is_go_space (byte c) \<and> byte c \<noteq> 0x0A"
    using ds(2) digit_rune_facts by (auto simp: list_all_iff)
  obtain c ds' where c: "ds = c # ds'" using ds(1) by (cases ds) auto
  have asc: "ascii (sg @ ds)" using d sg by (auto simp: ascii_def byte_def)
  let ?tail = "(0x0A, [CHR 0x0A]) # runes rest"
  have r: "runes (sg @ ds @ CHR 0x0A # rest) = ascii_runes sg @ ascii_runes ds @ ?tail"
    using runes_ascii_append [OF asc, of "CHR 0x0A # rest"] by (simp add: ascii_runes_def)
  have sr: "ascii_runes sg = [] \<or> (\<exists>x. ascii_runes sg = [x] \<and> is_sign_rune x)"
    using sg by (auto simp: ascii_runes_def byte_def is_sign_rune_def)
  have sk: "skip_space (ascii_runes sg @ ascii_runes ds @ ?tail) = Inr (ascii_runes sg @ ascii_runes ds @ ?tail)"
    using sg c d by (auto simp: ascii_runes_def byte_def is_go_space_def)
  have dr: "ascii_runes ds \<noteq> []" "\<forall>x \<in> set (ascii_runes ds). is_digit_rune x"
    using c d by (auto simp: ascii_runes_def)
  have nd: "\<not> is_digit_rune (0x0A, [CHR 0x0A])" by (simp add: is_digit_rune_def)
  have wr: "written (ascii_runes sg @ ascii_runes ds) = sg @ ds"
    using written_ascii_runes [OF asc] by (simp add: ascii_runes_def)
  from sk have sk': "skip_space (runes (sg @ ds @ CHR 0x0A # rest)) =
      Inr (ascii_runes sg @ ascii_runes ds @ ?tail)"
    by (simp only: r)
  show ?thesis
    using scanf_int_token [OF sk' sr dr nd] wr by (simp split: sum.split)
qed


lemma scanf_int_format_int: "scanf_int (format_int t @ CHR 0x0A # rest) = (t, rest)"
proof (cases "sint t < 0")
  case True
  let ?ds = "format_nat (nat (- sint t))"
  have "format_int t = ''-'' @ ?ds" using True by (simp add: format_int_def)
  moreover have "?ds \<noteq> []" "list_all is_digit ?ds" using format_nat_digits by blast+
  ultimately show ?thesis
    using scanf_int_line [of "''-''" ?ds rest] atoi_format_int [of t] by simp
next
  case False
  let ?ds = "format_nat (nat (sint t))"
  have "format_int t = [] @ ?ds" using False by (simp add: format_int_def)
  moreover have "?ds \<noteq> []" "list_all is_digit ?ds" using format_nat_digits by blast+
  ultimately show ?thesis
    using scanf_int_line [of "[]" ?ds rest] atoi_format_int [of t] by simp
qed

subsection \<open>What the reads leave unread\<close>

lemma skip_space_suffix: "suffix (case skip_space rs of Inl r \<Rightarrow> r | Inr r \<Rightarrow> r) rs"
  by (induction rs) (auto simp: suffix_ConsI intro: suffix_order.order_trans)

lemma match_newline_suffix: "suffix (match_newline rs) rs"
  by (induction rs) (auto simp: suffix_ConsI intro: suffix_order.order_trans)

lemma unread_suffix: "suffix rs' rs \<Longrightarrow> set (unread rs') \<subseteq> set (unread rs)"
  by (auto simp: suffix_def unread_def)

lemma suffix_unread_runes: "suffix rs' (runes s) \<Longrightarrow> set (unread rs') \<subseteq> set s"
  using unread_suffix [of rs' "runes s"] by simp

lemma scanf_word_rest: "set (snd (scanf_word s)) \<subseteq> set s"
proof (cases "skip_space (runes s)")
  case (Inl rest)
  then have "suffix rest (runes s)" using skip_space_suffix [of "runes s"] by simp
  with Inl show ?thesis by (simp add: scanf_word_def suffix_unread_runes)
next
  case (Inr rs)
  then have rs: "suffix rs (runes s)" using skip_space_suffix [of "runes s"] by simp
  have "suffix (match_newline (dropWhile not_space rs)) (runes s)"
    using match_newline_suffix suffix_dropWhile rs by (blast intro: suffix_order.order_trans)
  with Inr show ?thesis by (simp add: scanf_word_Inr suffix_unread_runes)
qed

lemma scanf_int_rest: "set (snd (scanf_int s)) \<subseteq> set s"
proof (cases "skip_space (runes s)")
  case (Inl rest)
  then have "suffix rest (runes s)" using skip_space_suffix [of "runes s"] by simp
  with Inl show ?thesis by (simp add: scanf_int_def suffix_unread_runes)
next
  case (Inr rs)
  then have rs: "suffix rs (runes s)" using skip_space_suffix [of "runes s"] by simp
  have t: "suffix t (runes s)" if "suffix t rs" for t
    using that rs by (rule suffix_order.order_trans)
  have tl: "suffix (tl rs) rs" by (cases rs) (auto simp: suffix_ConsI)
  have d: "suffix (dropWhile is_digit_rune rs1) rs" if "suffix rs1 rs" for rs1
    using suffix_dropWhile that by (rule suffix_order.order_trans)
  show ?thesis
  proof (cases rs)
    case Nil
    with Inr show ?thesis by (simp add: scanf_int_def)
  next
    case (Cons r0 rs0)
    let ?rs1 = "if is_sign_rune r0 then rs0 else r0 # rs0"
    have s1: "suffix ?rs1 rs" using Cons by (auto simp: suffix_ConsI)
    have sd: "suffix (dropWhile is_digit_rune ?rs1) (runes s)" using d [OF s1] by (rule t)
    have s2: "suffix (drop 1 (dropWhile is_digit_rune ?rs1)) (runes s)"
      using suffix_drop sd by (rule suffix_order.order_trans)
    have s3: "suffix (match_newline (dropWhile is_digit_rune ?rs1)) (runes s)"
      using match_newline_suffix sd by (rule suffix_order.order_trans)
    have "suffix (tl ?rs1) ?rs1" by (cases ?rs1) (simp_all add: suffix_ConsI)
    then have s4: "suffix (tl ?rs1) (runes s)"
      using s1 by (blast intro: suffix_order.order_trans t)
    show ?thesis
      using Inr Cons suffix_unread_runes [OF s2] suffix_unread_runes [OF s3] suffix_unread_runes [OF s4]
      by (auto simp: scanf_int_def Let_def split: list.splits sum.splits if_splits)
  qed
qed

subsection \<open>Properties of the input readers\<close>

text \<open>
  C23: a target line that holds the decimal form of a 64-bit integer (as
  \<open>strconv\<close> writes it, \<open>math.MinInt64\<close> included) is read by
  \<open>fmt.Scanf("%d\n", &target)\<close> as that integer, and the rest of standard input is
  left for the next reader; a line outside the 64-bit range leaves \<open>target\<close> at its
  zero value 0, with no diagnostic, and the rest of the input still in place.
\<close>

theorem scanf_target_line:
  "scanf_int (format_int t @ CHR 0x0A # rest) = (t, rest)
   \<and> scanf_int (''9223372036854775808'' @ CHR 0x0A # rest) = (0, rest)"
proof
  show "scanf_int (format_int t @ CHR 0x0A # rest) = (t, rest)" by (rule scanf_int_format_int)
  show "scanf_int (''9223372036854775808'' @ CHR 0x0A # rest) = (0, rest)"
    using scanf_int_line [of "[]" "''9223372036854775808''" rest]
    by (simp add: atoi_def decimal_value_def digit_value_def is_digit_def)
qed

subsection \<open>The word read is well typed\<close>


lemma runes_written: "runes (written rs) = map (\<lambda>r. (scalar_of (fst r), encode_rune (fst r))) rs"
  by (induction rs) (simp_all add: written_def runes_encode)

lemma valid_utf8_written: "valid_utf8 (written rs)"
  by (induction rs) (simp_all add: written_def)

lemma not_space_scalar_of: "\<not> is_go_space r \<Longrightarrow> \<not> is_go_space (scalar_of r)"
  by (simp add: scalar_of_def is_go_space_def)

lemma written_no_space:
  "list_all not_space rs \<Longrightarrow> list_all (\<lambda>r. \<not> is_go_space (fst r)) (runes (written rs))"
  by (induction rs) (simp_all add: runes_written not_space_def not_space_scalar_of)

text \<open>
  C25: the word \<open>fmt.Scanf("%s\n")\<close> stores (the operator, the phoneme) is well typed:
  it is valid UTF-8 whatever bytes standard input held, since every rune is written back
  with \<open>EncodeRune\<close>, and none of its runes is a space.
\<close>

theorem scanf_word_well_typed:
  "valid_utf8 (fst (scanf_word s)) \<and> list_all (\<lambda>r. \<not> is_go_space (fst r)) (runes (fst (scanf_word s)))"
proof -
  have "list_all not_space (takeWhile not_space rs)" for rs
    by (induction rs) auto
  then show ?thesis
    by (auto simp: scanf_word_def valid_utf8_written written_no_space split: sum.split list.split)
qed

end
