(* ===== verification/Json.thy ===== *)
theory Json
  imports Utf8 Strconv "HOL-Library.AList"
begin

text \<open>
  \<open>encoding/json\<close> as the programs use it: \<open>json.Unmarshal\<close> of a feature line into
  \<open>rawFeatures := []string{}\<close> (\<open>readOneSetOfFeatures\<close> and the count query) and of
  a cache file into a \<open>map[string][]string\<close> (\<open>UnmarshalJSONFile\<close>); the programs
  ignore the error \<open>Unmarshal\<close> returns.
  \<open>Unmarshal\<close> first checks that the whole input is one JSON value surrounded by
  white space (\<open>checkValid\<close>); on invalid input it returns an error and leaves the
  target untouched. \<open>json_decode\<close> is that check together with the value it reads:
  \<open>parse_value\<close>, \<open>parse_elements\<close> and \<open>parse_members\<close> are a recursive-descent
  reading of the grammar Go's scanner accepts (literals, numbers, strings whose bytes are
  at least 0x20 with the escapes \<open>\" \\ \/ \b \f \n \r \t \uXXXX\<close>, arrays, objects)
  with its nesting limit of 10000 open arrays and objects. Strings are decoded as
  \<open>unquote\<close> does: escapes are replaced, a \<open>\u\<close> surrogate pair is combined, a lone
  surrogate becomes U+FFFD, and every byte that does not start well-formed UTF-8 becomes
  U+FFFD. The parsers take fuel, one unit per nested call; \<open>json_decode\<close> gives them
  one more unit than the input has bytes, which the fuel lemmas show is always enough.
  Decoding into Go types: an array into a fresh \<open>[]string\<close> gives one string per
  element, \<open>""\<close> for an element that is not a string (a type error \<open>Unmarshal\<close>
  records and skips); \<open>null\<close>, any other value or invalid input leaves the empty
  slice. An object into a fresh map sets every key in order (a repeated key keeps the
  last value), each value decoded into a fresh \<open>[]string\<close> as above, \<open>nil\<close> for
  a value that is not an array; anything else leaves the map empty.
\<close>

datatype json =
    JNull
  | JBool bool
  | JNumber string
  | JString string
  | JArray "json list"
  | JObject "(string \<times> json) list"

abbreviation max_nesting_depth :: nat where
  "max_nesting_depth \<equiv> 10000"

definition is_json_ws :: "char \<Rightarrow> bool" where
  "is_json_ws c \<longleftrightarrow> c = CHR 0x20 \<or> c = CHR 0x09 \<or> c = CHR 0x0A \<or> c = CHR 0x0D"

definition next_char :: "string \<Rightarrow> (char \<times> string) option" where
  "next_char s = (case dropWhile is_json_ws s of [] \<Rightarrow> None | c # r \<Rightarrow> Some (c, r))"

subsection \<open>Lexing\<close>

definition hex_value :: "char \<Rightarrow> nat option" where
  "hex_value c =
     (let b = byte c in
      if 0x30 \<le> b \<and> b \<le> 0x39 then Some (b - 0x30)
      else if 0x61 \<le> b \<and> b \<le> 0x66 then Some (b - 0x61 + 10)
      else if 0x41 \<le> b \<and> b \<le> 0x46 then Some (b - 0x41 + 10)
      else None)"

fun hex4 :: "string \<Rightarrow> nat option" where
  "hex4 (a # b # c # d # _) =
     (case (hex_value a, hex_value b, hex_value c, hex_value d) of
        (Some w, Some x, Some y, Some z) \<Rightarrow> Some (((w * 16 + x) * 16 + y) * 16 + z)
      | _ \<Rightarrow> None)"
| "hex4 _ = None"

definition simple_escape :: "char \<Rightarrow> char option" where
  "simple_escape e =
     (if e = CHR 0x22 \<or> e = CHR 0x5C \<or> e = CHR ''/'' then Some e
      else if e = CHR ''b'' then Some (CHR 0x08)
      else if e = CHR ''f'' then Some (CHR 0x0C)
      else if e = CHR ''n'' then Some (CHR 0x0A)
      else if e = CHR ''r'' then Some (CHR 0x0D)
      else if e = CHR ''t'' then Some (CHR 0x09)
      else None)"

definition is_surrogate :: "nat \<Rightarrow> bool" where
  "is_surrogate r \<longleftrightarrow> 0xD800 \<le> r \<and> r < 0xE000"

text \<open>\<open>utf16.DecodeRune\<close>: the code point of a surrogate pair, or U+FFFD.\<close>

definition utf16_pair :: "nat \<Rightarrow> nat \<Rightarrow> nat" where
  "utf16_pair r1 r2 =
     (if 0xD800 \<le> r1 \<and> r1 < 0xDC00 \<and> 0xDC00 \<le> r2 \<and> r2 < 0xE000
      then (r1 - 0xD800) * 0x400 + (r2 - 0xDC00) + 0x10000
      else rune_error)"

definition prepend :: "string \<Rightarrow> (string \<times> string) option \<Rightarrow> (string \<times> string) option" where
  "prepend p r = map_option (\<lambda>(s, rest). (p @ s, rest)) r"

text \<open>
  \<open>lex_string\<close> reads the bytes after an opening quote up to the closing quote and
  returns the decoded string and what follows the quote.
\<close>

fun lex_string :: "string \<Rightarrow> (string \<times> string) option" where
  "lex_string [] = None"
| "lex_string (c # cs) =
     (if c = CHR 0x22 then Some ([], cs)
      else if c = CHR 0x5C then
        (case cs of
           [] \<Rightarrow> None
         | e # r \<Rightarrow>
             if e = CHR ''u'' then
               (case hex4 r of
                  None \<Rightarrow> None
                | Some u \<Rightarrow>
                    if \<not> is_surrogate u then prepend (encode_rune u) (lex_string (drop 4 r))
                    else
                      (case hex4 (drop 6 r) of
                         Some u2 \<Rightarrow>
                           if take 2 (drop 4 r) = [CHR 0x5C, CHR ''u''] \<and> utf16_pair u u2 \<noteq> rune_error
                           then prepend (encode_rune (utf16_pair u u2)) (lex_string (drop 10 r))
                           else prepend (encode_rune rune_error) (lex_string (drop 4 r))
                       | None \<Rightarrow> prepend (encode_rune rune_error) (lex_string (drop 4 r))))
             else
               (case simple_escape e of
                  None \<Rightarrow> None
                | Some d \<Rightarrow> prepend [d] (lex_string r)))
      else if byte c < 0x20 then None
      else if byte c < 0x80 then prepend [c] (lex_string cs)
      else prepend (encode_rune (fst (decode_rune (c # cs))))
             (lex_string (drop (snd (decode_rune (c # cs)) - 1) cs)))"

definition lex_digits :: "string \<Rightarrow> (string \<times> string) option" where
  "lex_digits s =
     (let ds = takeWhile is_digit s in if ds = [] then None else Some (ds, dropWhile is_digit s))"

definition lex_fraction :: "string \<Rightarrow> (string \<times> string) option" where
  "lex_fraction s =
     (case s of
        c # r \<Rightarrow> if c = CHR ''.'' then prepend [c] (lex_digits r) else Some ([], s)
      | [] \<Rightarrow> Some ([], s))"

definition lex_exponent :: "string \<Rightarrow> (string \<times> string) option" where
  "lex_exponent s =
     (case s of
        c # r \<Rightarrow>
          if c = CHR ''e'' \<or> c = CHR ''E'' then
            (case r of
               d # r' \<Rightarrow>
                 if d = CHR ''+'' \<or> d = CHR ''-'' then prepend [c, d] (lex_digits r')
                 else prepend [c] (lex_digits r)
             | [] \<Rightarrow> None)
          else Some ([], s)
      | [] \<Rightarrow> Some ([], s))"

definition lex_number :: "string \<Rightarrow> (string \<times> string) option" where
  "lex_number s =
     (let (sign, s1) = (case s of c # r \<Rightarrow> if c = CHR ''-'' then ([c], r) else ([], s) | [] \<Rightarrow> ([], s))
      in case s1 of
           [] \<Rightarrow> None
         | c # r \<Rightarrow>
             if c = CHR ''0'' \<or> is_digit c then
               (let (int_part, r1) = (if c = CHR ''0'' then ([c], r)
                                      else (c # takeWhile is_digit r, dropWhile is_digit r))
                in case lex_fraction r1 of
                     None \<Rightarrow> None
                   | Some (frac, r2) \<Rightarrow>
                       prepend (sign @ int_part @ frac) (lex_exponent r2))
             else None)"

definition lex_literal :: "string \<Rightarrow> json \<Rightarrow> string \<Rightarrow> (json \<times> string) option" where
  "lex_literal word v s = (if take (length word) s = word then Some (v, drop (length word) s) else None)"

subsection \<open>Parsing\<close>

fun parse_value :: "nat \<Rightarrow> nat \<Rightarrow> string \<Rightarrow> (json \<times> string) option"
and parse_elements :: "nat \<Rightarrow> nat \<Rightarrow> string \<Rightarrow> json list \<Rightarrow> (json \<times> string) option"
and parse_members ::
  "nat \<Rightarrow> nat \<Rightarrow> string \<Rightarrow> (string \<times> json) list \<Rightarrow> (json \<times> string) option" where
  "parse_value 0 depth s = None"
| "parse_value (Suc n) depth s =
     (case next_char s of
        None \<Rightarrow> None
      | Some (c, r) \<Rightarrow>
          if c = CHR ''['' then
            (if max_nesting_depth \<le> depth then None
             else case next_char r of
               Some (c', r') \<Rightarrow>
                 if c' = CHR '']'' then Some (JArray [], r')
                 else
                   (case parse_value n (Suc depth) r of
                      None \<Rightarrow> None
                    | Some (v, r'') \<Rightarrow> parse_elements n (Suc depth) r'' [v])
             | None \<Rightarrow> None)
          else if c = CHR ''{'' then
            (if max_nesting_depth \<le> depth then None
             else case next_char r of
               Some (c', r') \<Rightarrow>
                 if c' = CHR ''}'' then Some (JObject [], r')
                 else parse_members n (Suc depth) r []
             | None \<Rightarrow> None)
          else if c = CHR 0x22 then map_option (\<lambda>(str, r'). (JString str, r')) (lex_string r)
          else if c = CHR ''t'' then lex_literal ''rue'' (JBool True) r
          else if c = CHR ''f'' then lex_literal ''alse'' (JBool False) r
          else if c = CHR ''n'' then lex_literal ''ull'' JNull r
          else map_option (\<lambda>(t, r'). (JNumber t, r')) (lex_number (c # r)))"
| "parse_elements 0 depth s acc = None"
| "parse_elements (Suc n) depth s acc =
     (case next_char s of
        Some (c, r) \<Rightarrow>
          if c = CHR '','' then
            (case parse_value n depth r of
               None \<Rightarrow> None
             | Some (v, r') \<Rightarrow> parse_elements n depth r' (acc @ [v]))
          else if c = CHR '']'' then Some (JArray acc, r)
          else None
      | None \<Rightarrow> None)"
| "parse_members 0 depth s acc = None"
| "parse_members (Suc n) depth s acc =
     (case next_char s of
        Some (c, r) \<Rightarrow>
          if c = CHR 0x22 then
            (case lex_string r of
               None \<Rightarrow> None
             | Some (k, r1) \<Rightarrow>
                 (case next_char r1 of
                    Some (c1, r2) \<Rightarrow>
                      if c1 = CHR '':'' then
                        (case parse_value n depth r2 of
                           None \<Rightarrow> None
                         | Some (v, r3) \<Rightarrow>
                             (case next_char r3 of
                                Some (c3, r4) \<Rightarrow>
                                  if c3 = CHR '','' then parse_members n depth r4 (acc @ [(k, v)])
                                  else if c3 = CHR ''}'' then Some (JObject (acc @ [(k, v)]), r4)
                                  else None
                              | None \<Rightarrow> None))
                      else None
                  | None \<Rightarrow> None))
          else None
      | None \<Rightarrow> None)"

definition json_decode :: "string \<Rightarrow> json option" where
  "json_decode s =
     (case parse_value (Suc (length s)) 0 s of
        Some (v, r) \<Rightarrow> if dropWhile is_json_ws r = [] then Some v else None
      | None \<Rightarrow> None)"

subsection \<open>Decoding into Go values\<close>

fun string_slot :: "json \<Rightarrow> string" where
  "string_slot (JString s) = s"
| "string_slot _ = []"

fun string_slice_of :: "json \<Rightarrow> string list" where
  "string_slice_of (JArray vs) = map string_slot vs"
| "string_slice_of _ = []"

definition unmarshal_string_slice :: "string \<Rightarrow> string list" where
  "unmarshal_string_slice data =
     (case json_decode data of Some (JArray vs) \<Rightarrow> map string_slot vs | _ \<Rightarrow> [])"

definition unmarshal_string_map :: "string \<Rightarrow> (string \<times> string list) list" where
  "unmarshal_string_map data =
     (case json_decode data of
        Some (JObject kvs) \<Rightarrow> fold (\<lambda>(k, v) m. AList.update k (string_slice_of v) m) kvs []
      | _ \<Rightarrow> [])"

text \<open>
  \<open>json_valid\<close>: every string of a JSON value, keys included, is valid UTF-8.
\<close>

fun json_valid :: "json \<Rightarrow> bool" where
  "json_valid (JString s) = valid_utf8 s"
| "json_valid (JArray vs) = list_all json_valid vs"
| "json_valid (JObject kvs) = list_all (\<lambda>(k, v). valid_utf8 k \<and> json_valid v) kvs"
| "json_valid _ = True"

text \<open>
  A writer of feature lines, used to state what \<open>Unmarshal\<close> reads: each string
  quoted with \<open>"\<close> and \<open>\\\<close> escaped, the strings separated by commas in
  brackets, as \<open>json.Marshal\<close> writes a \<open>[]string\<close> of printable ASCII.
\<close>

definition json_escape :: "char \<Rightarrow> string" where
  "json_escape c = (if c = CHR 0x22 \<or> c = CHR 0x5C then [CHR 0x5C, c] else [c])"

definition json_quote :: "string \<Rightarrow> string" where
  "json_quote s = CHR 0x22 # concat (map json_escape s) @ [CHR 0x22]"

definition json_string_array :: "string list \<Rightarrow> string" where
  "json_string_array xs =
     CHR ''['' # (case xs of [] \<Rightarrow> [] | x # ys \<Rightarrow> json_quote x @ concat (map (\<lambda>y. CHR '','' # json_quote y) ys))
     @ [CHR '']'']"

definition printable :: "string \<Rightarrow> bool" where
  "printable s \<longleftrightarrow> (\<forall>c \<in> set s. 0x20 \<le> byte c \<and> byte c < 0x80)"

subsection \<open>The parsers consume their input\<close>

lemma next_char_shorter: "next_char s = Some (c, r) \<Longrightarrow> length r < length s"
proof -
  assume a: "next_char s = Some (c, r)"
  then have "dropWhile is_json_ws s = c # r" by (simp add: next_char_def split: list.splits)
  moreover have "length (dropWhile is_json_ws s) \<le> length s" by (rule length_dropWhile_le)
  ultimately show ?thesis by simp
qed

lemma prepend_Some: "prepend p r = Some (v, rest) \<longleftrightarrow> (\<exists>v'. r = Some (v', rest) \<and> v = p @ v')"
  by (auto simp: prepend_def)
lemma length_take_drop_while: "length (takeWhile P s) + length (dropWhile P s) = length s"
  by (metis length_append takeWhile_dropWhile_id)

lemma lex_digits_shorter: "lex_digits s = Some (t, r) \<Longrightarrow> length r < length s"
proof -
  assume a: "lex_digits s = Some (t, r)"
  then have "takeWhile is_digit s \<noteq> []" "r = dropWhile is_digit s"
    by (auto simp: lex_digits_def Let_def split: if_splits)
  with length_take_drop_while [of is_digit s] show ?thesis by (cases "takeWhile is_digit s") auto
qed
lemma lex_fraction_shorter: "lex_fraction s = Some (t, r) \<Longrightarrow> length r \<le> length s"
  by (auto simp: lex_fraction_def prepend_Some split: list.splits if_splits dest!: lex_digits_shorter)

lemma lex_exponent_shorter: "lex_exponent s = Some (t, r) \<Longrightarrow> length r \<le> length s"
  by (auto simp: lex_exponent_def prepend_Some split: list.splits if_splits dest!: lex_digits_shorter)
lemma lex_literal_shorter: "lex_literal w v s = Some (v', r) \<Longrightarrow> length r \<le> length s"
  by (auto simp: lex_literal_def split: if_splits)
lemma lex_number_shorter: "lex_number s = Some (t, r) \<Longrightarrow> length r < length s"
proof -
  assume a: "lex_number s = Some (t, r)"
  obtain sign s1 where sp: "(case s of c # r \<Rightarrow> if c = CHR ''-'' then ([c], r) else ([], s) | [] \<Rightarrow> ([], s)) = (sign, s1)"
    by fastforce
  have s1: "length s1 \<le> length s" using sp by (auto split: list.splits if_splits)
  obtain c r0 where c: "s1 = c # r0" using a sp by (cases s1) (auto simp: lex_number_def)
  obtain ip r1 where ip: "(if c = CHR ''0'' then ([c], r0) else (c # takeWhile is_digit r0, dropWhile is_digit r0)) = (ip, r1)"
    by fastforce
  have r1: "length r1 \<le> length r0" using ip length_dropWhile_le [of is_digit r0] by (auto split: if_splits)
  from a sp c ip obtain fr r2 where f: "lex_fraction r1 = Some (fr, r2)" and e: "prepend (sign @ ip @ fr) (lex_exponent r2) = Some (t, r)"
    by (auto simp: lex_number_def split: if_splits option.splits)
  from e obtain t' where "lex_exponent r2 = Some (t', r)" by (auto simp: prepend_Some)
  then have "length r \<le> length r2" by (rule lex_exponent_shorter)
  also have "length r2 \<le> length r1" using f by (rule lex_fraction_shorter)
  finally show ?thesis using r1 s1 c by simp
qed
lemma lex_string_shorter: "lex_string s = Some (v, r) \<Longrightarrow> length r < length s"
proof (induction s arbitrary: v r rule: length_induct)
  case (1 s)
  obtain c cs where s: "s = c # cs" using "1.prems" by (cases s) auto
  have step: "length r < Suc (length cs)" if "lex_string t = Some (v', r)" "length t \<le> length cs" for t v'
  proof -
    have "length t < length s" using that(2) s by simp
    with "1.IH" that(1) have "length r < length t" by blast
    with that(2) show ?thesis by simp
  qed
  have d: "snd (decode_rune (c # cs)) - 1 \<le> length cs"
  proof -
    have "snd (decode_rune (c # cs)) \<le> Suc (length cs)" using decode_rune_size [of "c # cs"] by simp
    then show ?thesis by arith
  qed
  from "1.prems" d show ?case
    unfolding s
    by (auto simp: prepend_Some split: if_splits list.splits option.splits dest!: step)
qed
lemma parse_shorter:
  "(parse_value n d s = Some (v, r) \<longrightarrow> length r < length s)
   \<and> (parse_elements n d s acc = Some (v, r) \<longrightarrow> length r < length s)
   \<and> (parse_members n d s kvs = Some (v, r) \<longrightarrow> length r < length s)"
proof (induction n arbitrary: d s acc kvs v r)
  case 0
  then show ?case by simp
next
  case (Suc n)
  have V: "length r' < length t" if "parse_value n d' t = Some (v', r')" for d' t v' r'
    using Suc.IH that by blast
  have E: "length r' < length t" if "parse_elements n d' t a = Some (v', r')" for d' t a v' r'
    using Suc.IH that by blast
  have M: "length r' < length t" if "parse_members n d' t a = Some (v', r')" for d' t a v' r'
    using Suc.IH that by blast
  show ?case
  proof (intro conjI impI)
    assume "parse_value (Suc n) d s = Some (v, r)"
    then show "length r < length s"
      by (auto split: option.splits if_splits prod.splits
          dest!: next_char_shorter V E M lex_string_shorter lex_number_shorter lex_literal_shorter)
  next
    assume "parse_elements (Suc n) d s acc = Some (v, r)"
    then show "length r < length s"
      by (auto split: option.splits if_splits prod.splits dest!: next_char_shorter V E)
  next
    assume "parse_members (Suc n) d s kvs = Some (v, r)"
    then show "length r < length s"
      by (auto split: option.splits if_splits prod.splits
          dest!: next_char_shorter V M lex_string_shorter)
  qed
qed

lemma parse_fuel_step:
  "(length s < n \<longrightarrow> parse_value (Suc n) d s = parse_value n d s)
   \<and> (length s < n \<longrightarrow> parse_elements (Suc n) d s acc = parse_elements n d s acc)
   \<and> (length s < n \<longrightarrow> parse_members (Suc n) d s kvs = parse_members n d s kvs)"
proof (induction n arbitrary: d s acc kvs)
  case 0
  then show ?case by simp
next
  case (Suc n)
  have V: "parse_value (Suc n) d' t = parse_value n d' t" if "length t < n" for d' t
    using Suc.IH that by blast
  have E: "parse_elements (Suc n) d' t a = parse_elements n d' t a" if "length t < n" for d' t a
    using Suc.IH that by blast
  have M: "parse_members (Suc n) d' t a = parse_members n d' t a" if "length t < n" for d' t a
    using Suc.IH that by blast
  have VS: "length r' < length t" if "parse_value n d' t = Some (v', r')" for d' t v' r'
    using parse_shorter that by blast
  have then_E: "(case parse_value n d' t of None \<Rightarrow> None | Some (v, r') \<Rightarrow> parse_elements (Suc n) d' r' (f v))
      = (case parse_value n d' t of None \<Rightarrow> None | Some (v, r') \<Rightarrow> parse_elements n d' r' (f v))"
    if "length t < n" for d' t f
    using that by (cases "parse_value n d' t") (auto simp del: parse_elements.simps dest!: VS intro!: E)
  have M2: "parse_members (Suc n) d' r4 a' = parse_members n d' r4 a'"
    if "parse_value n d' r2 = Some (v, r3)" "next_char r3 = Some (c3, r4)" "length r2 < n"
    for d' r2 v r3 c3 r4 a'
    using VS [OF that(1)] next_char_shorter [OF that(2)] that(3) by (intro M) simp
  show ?case
  proof (intro conjI impI)
    assume l: "length s < Suc n"
    show "parse_value (Suc (Suc n)) d s = parse_value (Suc n) d s"
    proof (cases "next_char s")
      case None
      then show ?thesis by simp
    next
      case (Some a)
      obtain c r where a: "a = (c, r)" by fastforce
      with Some l have lr: "length r < n" using next_char_shorter by fastforce
      show ?thesis
        unfolding parse_value.simps(2) [of "Suc n" d s] parse_value.simps(2) [of n d s] Some a option.case prod.case
          V [OF lr] M [OF lr] then_E [OF lr] ..
    qed
  next
    assume l: "length s < Suc n"
    show "parse_elements (Suc (Suc n)) d s acc = parse_elements (Suc n) d s acc"
    proof (cases "next_char s")
      case None
      then show ?thesis by simp
    next
      case (Some a)
      obtain c r where a: "a = (c, r)" by fastforce
      with Some l have lr: "length r < n" using next_char_shorter by fastforce
      show ?thesis
        unfolding parse_elements.simps(2) [of "Suc n" d s] parse_elements.simps(2) [of n d s] Some a option.case prod.case
          V [OF lr] then_E [OF lr] ..
    qed
  next
    assume l: "length s < Suc n"
    show "parse_members (Suc (Suc n)) d s kvs = parse_members (Suc n) d s kvs"
    proof (cases "next_char s")
      case None
      then show ?thesis by simp
    next
      case (Some a)
      obtain c r where a: "a = (c, r)" by fastforce
      with Some l have lr: "length r < n" using next_char_shorter by fastforce
      have k: "length r2 < n" if "lex_string r = Some (k, r1)" "next_char r1 = Some (c1, r2)" for k r1 c1 r2
        using lr lex_string_shorter [OF that(1)] next_char_shorter [OF that(2)] by simp
      show ?thesis
        unfolding parse_members.simps(2) [of "Suc n" d s] parse_members.simps(2) [of n d s] Some a
        by (auto simp del: parse_value.simps parse_members.simps simp: M2 V dest!: k
            split: option.split)
    qed
  qed
qed

lemma parse_value_fuel_add: "length s < n \<Longrightarrow> parse_value (n + k) d s = parse_value n d s"
proof (induction k)
  case (Suc k)
  have "length s < n + k" using Suc.prems by simp
  then have a: "parse_value (Suc (n + k)) d s = parse_value (n + k) d s"
    using parse_fuel_step by blast
  show ?case by (simp only: add_Suc_right a Suc.IH [OF Suc.prems])
qed simp

subsection \<open>Properties of the decoder\<close>

text \<open>
  The fuel \<open>json_decode\<close> gives the reader is enough: any larger fuel gives the same
  result, so the fuel bound never cuts a reading short.
\<close>

lemma parse_value_fuel_enough:
  "length s < n \<Longrightarrow> parse_value n d s = parse_value (Suc (length s)) d s"
proof -
  assume "length s < n"
  then obtain k where "n = Suc (length s) + k" by (metis less_iff_Suc_add add_Suc)
  then show ?thesis using parse_value_fuel_add [of s "Suc (length s)" k d] by simp
qed

lemma prepend_Some_simp [simp]: "prepend p (Some (v, r)) = Some (p @ v, r)"
  by (simp add: prepend_def)

lemma lex_string_escaped:
  "printable s \<Longrightarrow> lex_string (concat (map json_escape s) @ CHR 0x22 # rest) = Some (s, rest)"
proof (induction s)
  case (Cons c s)
  then have c: "0x20 \<le> byte c" "byte c < 0x80" and p: "printable s" by (simp_all add: printable_def)
  show ?case
  proof (cases "c = CHR 0x22 \<or> c = CHR 0x5C")
    case True
    then show ?thesis using Cons.IH p by (auto simp: json_escape_def simple_escape_def)
  next
    case False
    then show ?thesis using Cons.IH p c by (simp add: json_escape_def)
  qed
qed simp

lemma next_char_nonws: "\<not> is_json_ws c \<Longrightarrow> next_char (c # s) = Some (c, s)"
  by (simp add: next_char_def)

lemma quote_not_ws [simp]: "\<not> is_json_ws (CHR 0x22)" "\<not> is_json_ws (CHR '','')"
  "\<not> is_json_ws (CHR '']'')" "\<not> is_json_ws (CHR ''['')"
  by (simp_all add: is_json_ws_def)

lemma parse_value_quote:
  "printable s \<Longrightarrow> parse_value (Suc n) d (json_quote s @ rest) = Some (JString s, rest)"
  by (simp add: json_quote_def next_char_nonws lex_string_escaped)

lemma parse_elements_quotes:
  "\<forall>x \<in> set xs. printable x \<Longrightarrow> length xs < n \<Longrightarrow>
   parse_elements n d (concat (map (\<lambda>y. CHR '','' # json_quote y) xs) @ CHR '']'' # rest) acc
     = Some (JArray (acc @ map JString xs), rest)"
proof (induction xs arbitrary: n acc)
  case Nil
  then obtain m where "n = Suc m" by (cases n) auto
  then show ?case by (simp add: next_char_nonws)
next
  case (Cons x xs)
  then obtain m where n: "n = Suc m" and m: "length xs < m" by (cases n) auto
  then obtain m' where m': "m = Suc m'" by (cases m) auto
  have ih: "parse_elements (Suc m') d (concat (map (\<lambda>y. CHR '','' # json_quote y) xs) @ CHR '']'' # rest)
      (acc @ [JString x]) = Some (JArray ((acc @ [JString x]) @ map JString xs), rest)"
    using Cons.prems m m' by (intro Cons.IH) auto
  have px: "printable x" using Cons.prems by simp
  show ?case
    unfolding n m' parse_elements.simps(2) [of "Suc m'" d]
    by (simp del: parse_value.simps parse_elements.simps add: next_char_nonws parse_value_quote [OF px] ih)
qed

lemma length_concat_commas: "length ys \<le> length (concat (map (\<lambda>y. CHR '','' # f y) ys))"
  by (induction ys) auto

lemma json_decode_string_array:
  assumes "\<forall>x \<in> set xs. printable x"
  shows "json_decode (json_string_array xs @ [CHR 0x0A]) = Some (JArray (map JString xs))"
proof (cases xs)
  case Nil
  then show ?thesis
    by (simp add: json_decode_def json_string_array_def next_char_nonws next_char_def is_json_ws_def)
next
  case (Cons x ys)
  let ?R = "concat (map (\<lambda>y. CHR '','' # json_quote y) ys) @ CHR '']'' # [CHR 0x0A]"
  have s: "json_string_array xs @ [CHR 0x0A] = CHR ''['' # json_quote x @ ?R"
    using Cons by (simp add: json_string_array_def)
  obtain L where L: "length (json_string_array xs @ [CHR 0x0A]) = Suc (Suc L)" and yl: "length ys < L"
  proof -
    have "length ys \<le> length (concat (map (\<lambda>y. CHR '','' # json_quote y) ys))"
      by (rule length_concat_commas)
    moreover have "length (json_quote x) \<ge> 2" by (simp add: json_quote_def)
    ultimately show ?thesis using that s by (simp add: Suc_le_eq)
  qed
  have px: "printable x" "\<forall>y \<in> set ys. printable y" using assms Cons by auto
  have q: "next_char (json_quote x @ ?R) = Some (CHR 0x22, tl (json_quote x) @ ?R)"
    by (simp add: json_quote_def next_char_nonws)
  have el: "parse_elements (Suc (Suc L)) (Suc 0) ?R [JString x] = Some (JArray (JString x # map JString ys), [CHR 0x0A])"
    using parse_elements_quotes [OF px(2), of "Suc (Suc L)" "Suc 0" "[CHR 0x0A]" "[JString x]"] yl by simp
  have "parse_value (Suc (Suc (Suc L))) 0 (CHR ''['' # json_quote x @ ?R)
      = Some (JArray (JString x # map JString ys), [CHR 0x0A])"
    unfolding parse_value.simps(2) [of "Suc (Suc L)"]
    by (simp del: parse_value.simps parse_elements.simps add: next_char_nonws q
        parse_value_quote [OF px(1)] el)
  then show ?thesis
    using Cons L s by (simp add: json_decode_def next_char_def is_json_ws_def)
qed
text \<open>
  C27: a feature line written as a JSON array of printable ASCII strings (quotes and
  backslashes escaped) and ended by the newline \<open>ReadBytes\<close> keeps is read by
  \<open>json.Unmarshal\<close> as exactly those strings, in order.
\<close>

theorem unmarshal_feature_line:
  assumes "\<forall>x \<in> set xs. printable x"
  shows "unmarshal_string_slice (json_string_array xs @ [CHR 0x0A]) = xs"
proof -
  have "map string_slot (map JString xs) = xs" by (induction xs) simp_all
  then show ?thesis using json_decode_string_array [OF assms] by (simp add: unmarshal_string_slice_def)
qed

theorem unmarshal_feature_line_witness:
  "unmarshal_string_slice (json_string_array [''+nasal'', ''-syllabic''] @ [CHR 0x0A]) = [''+nasal'', ''-syllabic'']"
  using unmarshal_feature_line [of "[''+nasal'', ''-syllabic'']"] by (simp add: printable_def byte_def)

subsection \<open>Decoded strings are valid UTF-8\<close>

lemma simple_escape_ascii: "simple_escape e = Some d \<Longrightarrow> byte d < 0x80"
  by (auto simp: simple_escape_def byte_def split: if_splits)

lemma prepend_valid_encode:
  "prepend (encode_rune u) r = Some (v, rest) \<Longrightarrow> (\<And>v' rest'. r = Some (v', rest') \<Longrightarrow> valid_utf8 v')
   \<Longrightarrow> valid_utf8 v"
  by (auto simp: prepend_Some)

lemma prepend_valid_ascii:
  "prepend [c] r = Some (v, rest) \<Longrightarrow> byte c < 0x80 \<Longrightarrow> (\<And>v' rest'. r = Some (v', rest') \<Longrightarrow> valid_utf8 v')
   \<Longrightarrow> valid_utf8 v"
  by (auto simp: prepend_Some)

lemma lex_string_valid: "lex_string s = Some (v, r) \<Longrightarrow> valid_utf8 v"
proof (induction s arbitrary: v r rule: lex_string.induct)
  case (2 c cs)
  show ?case
    using "2.prems"
    by (auto split: if_splits list.splits option.splits
        elim!: prepend_valid_encode prepend_valid_ascii intro: "2.IH" dest: simple_escape_ascii)
qed simp

lemma lex_literal_valid: "lex_literal w j s = Some (v, r) \<Longrightarrow> json_valid j \<Longrightarrow> json_valid v"
  by (auto simp: lex_literal_def split: if_splits)

lemma parse_valid:
  "(parse_value n d s = Some (v, r) \<longrightarrow> json_valid v)
   \<and> (parse_elements n d s acc = Some (v, r) \<longrightarrow> list_all json_valid acc \<longrightarrow> json_valid v)
   \<and> (parse_members n d s kvs = Some (v, r) \<longrightarrow>
        list_all (\<lambda>(k, v). valid_utf8 k \<and> json_valid v) kvs \<longrightarrow> json_valid v)"
proof (induction n arbitrary: d s acc kvs v r)
  case 0
  then show ?case by simp
next
  case (Suc n)
  have V: "json_valid v'" if "parse_value n d' t = Some (v', r')" for d' t v' r'
    using Suc.IH that by blast
  have E: "json_valid v'" if "parse_elements n d' t a = Some (v', r')" "list_all json_valid a"
    for d' t a v' r'
    using Suc.IH that by blast
  have M: "json_valid v'" if "parse_members n d' t a = Some (v', r')"
    "list_all (\<lambda>(k, v). valid_utf8 k \<and> json_valid v) a" for d' t a v' r'
    using Suc.IH that by blast
  have E1: "json_valid v'" if "parse_value n d1 t = Some (v0, r0)"
    "parse_elements n d2 t' (a @ [v0]) = Some (v', r')" "list_all json_valid a"
    for d1 d2 t t' a v0 r0 v' r'
    using E [OF that(2)] V [OF that(1)] that(3) by simp
  have E0: "json_valid v'" if "parse_value n d1 t = Some (v0, r0)"
    "parse_elements n d2 t' [v0] = Some (v', r')" for d1 d2 t t' v0 r0 v' r'
    using E1 [of d1 t v0 r0 d2 t' "[]"] that by simp
  have M1: "json_valid v'" if "lex_string t0 = Some (k, r1)" "parse_value n d1 t = Some (v0, r0)"
    "parse_members n d2 t' (a @ [(k, v0)]) = Some (v', r')"
    "list_all (\<lambda>(k, v). valid_utf8 k \<and> json_valid v) a"
    for t0 k r1 d1 d2 t t' a v0 r0 v' r'
    using M [OF that(3)] V [OF that(2)] lex_string_valid [OF that(1)] that(4) by simp
  show ?case
  proof (intro conjI impI)
    assume "parse_value (Suc n) d s = Some (v, r)"
    then show "json_valid v"
      by (auto split: option.splits if_splits prod.splits
          dest: lex_string_valid lex_literal_valid intro: M E0)
  next
    assume "parse_elements (Suc n) d s acc = Some (v, r)" "list_all json_valid acc"
    then show "json_valid v"
      by (auto split: option.splits if_splits prod.splits intro: E1)
  next
    assume "parse_members (Suc n) d s kvs = Some (v, r)"
      "list_all (\<lambda>(k, v). valid_utf8 k \<and> json_valid v) kvs"
    then show "json_valid v"
      by (auto split: option.splits if_splits prod.splits intro: M1 dest: V lex_string_valid)
  qed
qed

lemma json_decode_valid: "json_decode s = Some v \<Longrightarrow> json_valid v"
  using parse_valid [THEN conjunct1]
  by (auto simp: json_decode_def simp del: parse_value.simps split: option.splits if_splits)

lemma string_slot_valid: "json_valid v \<Longrightarrow> valid_utf8 (string_slot v)"
  by (cases v) simp_all

lemma string_slice_of_valid: "json_valid v \<Longrightarrow> list_all valid_utf8 (string_slice_of v)"
  by (cases v) (auto simp: list_all_iff string_slot_valid)

lemma list_all_update: "list_all P m \<Longrightarrow> P (k, v) \<Longrightarrow> list_all P (AList.update k v m)"
  by (induction m) auto

lemma fold_update_props:
  assumes "list_all Q kvs" and "\<And>k v. Q (k, v) \<Longrightarrow> P (k, f v)" and "list_all P m"
    and "distinct (map fst m)"
  shows "list_all P (fold (\<lambda>(k, v) m. AList.update k (f v) m) kvs m)
    \<and> distinct (map fst (fold (\<lambda>(k, v) m. AList.update k (f v) m) kvs m))"
  using assms(1,3,4)
proof (induction kvs arbitrary: m)
  case (Cons kv kvs)
  obtain k v where kv: "kv = (k, v)" by fastforce
  have "list_all P (AList.update k (f v) m)"
    using Cons.prems kv assms(2) by (auto intro: list_all_update)
  moreover have "distinct (map fst (AList.update k (f v) m))"
    using Cons.prems(3) by (simp add: distinct_update)
  ultimately show ?case using Cons.IH [of "AList.update k (f v) m"] Cons.prems(1) kv by simp
qed simp

text \<open>
  C20: what \<open>json.Unmarshal\<close> stores is well typed as the Go program sees it: every
  string of a decoded \<open>[]string\<close>, and every key and every element of a decoded
  \<open>map[string][]string\<close>, is valid UTF-8 (\<open>utf8.ValidString\<close>) whatever bytes
  the input held, and the keys of a decoded map are distinct.
\<close>

theorem unmarshal_well_typed:
  "list_all valid_utf8 (unmarshal_string_slice d)
   \<and> list_all (\<lambda>(k, vs). valid_utf8 k \<and> list_all valid_utf8 vs) (unmarshal_string_map d)
   \<and> distinct (map fst (unmarshal_string_map d))"
proof -
  have s: "list_all valid_utf8 (unmarshal_string_slice d)"
  proof (cases "json_decode d")
    case (Some v)
    then have "json_valid v" by (rule json_decode_valid)
    with Some show ?thesis
      by (cases v) (auto simp: unmarshal_string_slice_def list_all_iff string_slot_valid)
  qed (simp add: unmarshal_string_slice_def)
  have "list_all (\<lambda>(k, vs). valid_utf8 k \<and> list_all valid_utf8 vs) (unmarshal_string_map d)
      \<and> distinct (map fst (unmarshal_string_map d))"
  proof (cases "json_decode d")
    case (Some v)
    then have v: "json_valid v" by (rule json_decode_valid)
    show ?thesis
    proof (cases v)
      case (JObject kvs)
      then show ?thesis
        using Some v fold_update_props [of "\<lambda>(k, v). valid_utf8 k \<and> json_valid v" kvs
            "\<lambda>(k, vs). valid_utf8 k \<and> list_all valid_utf8 vs" string_slice_of "[]"]
        by (simp add: unmarshal_string_map_def string_slice_of_valid)
    qed (simp_all add: unmarshal_string_map_def Some)
  qed (simp add: unmarshal_string_map_def)
  with s show ?thesis by blast
qed

end
