(* ===== verification/Programs.thy ===== *)
theory Programs
  imports Query Output Input Json "HOL-Library.Sublist"
begin

text \<open>
  The three programs end to end: \<open>main\<close> of \<open>src/go_modules/comparisonquery\<close>,
  \<open>countquery\<close> and \<open>phonemequery\<close>, from the cache files and standard input to
  what they print. Each \<open>main\<close> first loads its caches with
  \<open>fc.UnmarshalJSONFile\<close> (\<open>unmarshal_json_file\<close>: \<open>os.Open\<close> fails fatally on
  a missing file, the error of \<open>json.Unmarshal\<close> is ignored), then reads its input
  with \<open>fmt.Scanf\<close> and, for the feature lines, \<open>bufio.Reader.ReadBytes\<close> and
  \<open>json.Unmarshal\<close> (\<open>read_feature_line\<close>), then runs the selection loop of the
  query evaluator over the inventories map and prints the result.
  \<open>comparison_setup\<close>, \<open>count_setup\<close> and \<open>phoneme_setup\<close> are the part of each
  \<open>main\<close> before the loop: they end fatally or return the inventories map (as a list
  of entries with distinct keys) and the loop as a function of the order in which Go
  visits that map. The run relation \<open>runs\<close> leaves that order open: a run of a
  program on a file system and an input prints \<open>print_result\<close> of the loop over
  any permutation of the entries. A file system maps the names the programs open to
  their contents (\<open>None\<close>: \<open>os.Open\<close> fails).
\<close>

type_synonym file_system = "string \<rightharpoonup> string"

type_synonym selection_loop = "lang_entry list \<Rightarrow> fatal + goint list"

datatype program = ComparisonQuery | CountQuery | PhonemeQuery

definition unmarshal_json_file :: "file_system \<Rightarrow> string \<Rightarrow> fatal + (string \<times> string list) list" where
  "unmarshal_json_file fs path =
     (case fs path of
        None \<Rightarrow> Inl (OpenFailed path)
      | Some dataBytes \<Rightarrow> Inr (unmarshal_string_map dataBytes))"

definition read_feature_line :: "string \<Rightarrow> fatal + string list \<times> string" where
  "read_feature_line input =
     (case read_bytes_line input of
        Inl e \<Rightarrow> Inl e
      | Inr (inputBytes, rest) \<Rightarrow> Inr (unmarshal_string_slice inputBytes, rest))"

definition comparison_setup :: "file_system \<Rightarrow> string \<Rightarrow> fatal + lang_entry list \<times> selection_loop" where
  "comparison_setup fs stdin =
     (case unmarshal_json_file fs ''inventories.json'' of
        Inl e \<Rightarrow> Inl e
      | Inr inventories \<Rightarrow>
          (case unmarshal_json_file fs ''parses_cache.json'' of
             Inl e \<Rightarrow> Inl e
           | Inr parses \<Rightarrow>
               (let (op, in1) = scanf_word stdin in
                case read_feature_line in1 of
                  Inl e \<Rightarrow> Inl e
                | Inr (rawFeatures1, in2) \<Rightarrow>
                    (case read_feature_line in2 of
                       Inl e \<Rightarrow> Inl e
                     | Inr (rawFeatures2, _) \<Rightarrow>
                         Inr (inventories, \<lambda>es. comparison_query op rawFeatures1 rawFeatures2 es
                                                  (map_of parses))))))"

definition count_setup :: "file_system \<Rightarrow> string \<Rightarrow> fatal + lang_entry list \<times> selection_loop" where
  "count_setup fs stdin =
     (case unmarshal_json_file fs ''inventories.json'' of
        Inl e \<Rightarrow> Inl e
      | Inr inventories \<Rightarrow>
          (case unmarshal_json_file fs ''parses_cache.json'' of
             Inl e \<Rightarrow> Inl e
           | Inr parses \<Rightarrow>
               (let (op, in1) = scanf_word stdin;
                    (target, in2) = scanf_int in1
                in case read_feature_line in2 of
                     Inl e \<Rightarrow> Inl e
                   | Inr (rawFeatures, _) \<Rightarrow>
                       Inr (inventories, \<lambda>es. count_query op target rawFeatures es (map_of parses)))))"

definition phoneme_setup :: "file_system \<Rightarrow> string \<Rightarrow> fatal + lang_entry list \<times> selection_loop" where
  "phoneme_setup fs stdin =
     (case unmarshal_json_file fs ''inventories.json'' of
        Inl e \<Rightarrow> Inl e
      | Inr inventories \<Rightarrow>
          (let (op, in1) = scanf_word stdin;
               (target, in2) = scanf_int in1;
               (phoneme, _) = scanf_word in2
           in Inr (inventories, \<lambda>es. phoneme_query op target phoneme es)))"

primrec program_setup :: "program \<Rightarrow> file_system \<Rightarrow> string \<Rightarrow> fatal + lang_entry list \<times> selection_loop" where
  "program_setup ComparisonQuery = comparison_setup"
| "program_setup CountQuery = count_setup"
| "program_setup PhonemeQuery = phoneme_setup"

inductive runs :: "program \<Rightarrow> file_system \<Rightarrow> string \<Rightarrow> string \<Rightarrow> bool" where
  setup_fatal: "program_setup p fs stdin = Inl e \<Longrightarrow> runs p fs stdin (print_result (Inl e))"
| loop_done: "program_setup p fs stdin = Inr (inventories, loop) \<Longrightarrow> mset es = mset inventories \<Longrightarrow>
    runs p fs stdin (print_result (loop es))"

inductive_simps runs_simps: "runs p fs stdin out"

inductive_cases runs_cases: "runs p fs stdin out"

subsection \<open>The setup and the loop\<close>

lemma read_feature_line_line:
  "CHR 0x0A \<notin> set l \<Longrightarrow>
   read_feature_line (l @ CHR 0x0A # rest) = Inr (unmarshal_string_slice (l @ [CHR 0x0A]), rest)"
  by (simp add: read_feature_line_def read_bytes_line_line)

lemma read_feature_line_no_newline: "CHR 0x0A \<notin> set s \<Longrightarrow> read_feature_line s = Inl ReadBytesEOF"
  by (simp add: read_feature_line_def read_bytes_line_def)

lemma setup_inventories:
  assumes "program_setup p fs stdin = Inr (invs, loop)" and "fs ''inventories.json'' = Some d"
  shows "invs = unmarshal_string_map d"
  using assms
  by (cases p) (auto simp: comparison_setup_def count_setup_def phoneme_setup_def unmarshal_json_file_def
      Let_def split: sum.splits prod.splits)

lemma setup_loop:
  assumes "program_setup p fs stdin = Inr (invs, loop)"
  shows "\<exists>d op. \<forall>es. loop es = select_languages d op es []"
  using assms
  by (cases p) (auto simp: comparison_setup_def count_setup_def phoneme_setup_def comparison_query_def
      count_query_def phoneme_query_def Let_def split_def split: sum.splits)

lemma same_outcome_print:
  assumes "same_outcome r r'"
  shows "(print_result r = [] \<longleftrightarrow> print_result r' = [])
    \<and> map_option mset (decode_int_array (butlast (print_result r)))
      = map_option mset (decode_int_array (butlast (print_result r')))"
  using assms
  by (auto simp: same_outcome_def print_result_def decode_marshal split: sum.splits)

lemma not_isl_Inr: "\<not> isl x \<Longrightarrow> x = Inr (projr x)"
  by (cases x) simp_all

lemma select_languages_ids:
  assumes "select_languages d op es [] = Inr ys"
  shows "\<forall>y \<in> set ys. \<exists>(l, i) \<in> set es. atoi l = Inr y"
proof (cases "es = []")
  case True
  with assms show ?thesis by simp
next
  case False
  show ?thesis
  proof (cases "parse_op op")
    case None
    with assms False show ?thesis by (simp add: select_languages_spec select_spec_def)
  next
    case (Some c')
    note c' = Some
    let ?sel = "selected_entries d c' es"
    have f: "find (\<lambda>(l, inventory). isl (atoi l)) ?sel = None"
      and ys: "ys = map (\<lambda>(l, inventory). projr (atoi l)) ?sel"
      using assms False c' by (auto simp: select_languages_spec select_spec_def split: option.splits)
    have "\<forall>(l, i) \<in> set ?sel. \<not> isl (atoi l)" using f by (auto simp: find_None_iff)
    moreover have "set ?sel \<subseteq> set es" by (auto simp: selected_entries_def)
    ultimately show ?thesis unfolding ys
      using not_isl_Inr by fastforce
  qed
qed

lemma setup_loop_perm:
  assumes "program_setup p fs stdin = Inr (invs, loop)" and "mset es = mset es'"
  shows "same_outcome (loop es) (loop es')"
  using assms queries_same_outcome [OF assms(2)]
  by (cases p) (auto simp: comparison_setup_def count_setup_def phoneme_setup_def Let_def
      split: sum.splits prod.splits)

lemma setup_loop_empty:
  "program_setup p fs stdin = Inr (invs, loop) \<Longrightarrow> loop [] = Inr []"
  using setup_loop [of p fs stdin invs loop] by auto

lemma count_setup_input:
  assumes "scanf_word stdin = (op, in1)" "scanf_int in1 = (target, in2)"
    and "read_feature_line in2 = Inr (raw, rest)"
  shows "count_setup fs stdin =
    (case unmarshal_json_file fs ''inventories.json'' of
       Inl e \<Rightarrow> Inl e
     | Inr invs \<Rightarrow>
         (case unmarshal_json_file fs ''parses_cache.json'' of
            Inl e \<Rightarrow> Inl e
          | Inr parses \<Rightarrow> Inr (invs, \<lambda>es. count_query op target raw es (map_of parses))))"
  using assms by (simp add: count_setup_def split: sum.split)

lemma setup_no_newline:
  assumes "CHR 0x0A \<notin> set stdin" and "p \<noteq> PhonemeQuery"
  shows "isl (program_setup p fs stdin)"
proof -
  have w: "CHR 0x0A \<notin> set (snd (scanf_word stdin))" using assms(1) scanf_word_rest by blast
  then have i: "CHR 0x0A \<notin> set (snd (scanf_int (snd (scanf_word stdin))))" using scanf_int_rest by blast
  show ?thesis using assms(2) read_feature_line_no_newline [OF w] read_feature_line_no_newline [OF i]
    by (cases p) (auto simp: comparison_setup_def count_setup_def split_def Let_def split: sum.split)
qed

lemma runs_setup_Inl: "program_setup p fs stdin = Inl e \<Longrightarrow> runs p fs stdin out \<longleftrightarrow> out = []"
  by (auto simp: runs_simps print_result_def)

lemma runs_setup_Inr:
  "program_setup p fs stdin = Inr (invs, loop) \<Longrightarrow>
   runs p fs stdin out \<longleftrightarrow> (\<exists>es. mset es = mset invs \<and> out = print_result (loop es))"
  by (auto simp: runs_simps)

lemma runs_with_loop_order:
  "program_setup p fs stdin = Inr (invs, loop) \<Longrightarrow> runs p fs stdin (print_result (loop invs))"
  by (rule loop_done) simp_all

lemma count_setup_min_target:
  assumes "fs ''inventories.json'' = Some d1" and "fs ''parses_cache.json'' = Some d2"
    and "CHR 0x0A \<notin> set l"
  shows "program_setup CountQuery fs (''>'' @ CHR 0x0A # ''-9223372036854775808'' @ CHR 0x0A # l @ [CHR 0x0A])
    = Inr (unmarshal_string_map d1, \<lambda>es. count_query ''>'' (word_of_int goint_min)
             (unmarshal_string_slice (l @ [CHR 0x0A])) es (map_of (unmarshal_string_map d2)))"
proof -
  have t: "scanf_int (''-9223372036854775808'' @ CHR 0x0A # l @ [CHR 0x0A])
      = (word_of_int goint_min, l @ [CHR 0x0A])"
    using scanf_int_line [of "''-''" "''9223372036854775808''" "l @ [CHR 0x0A]"]
    by (simp add: atoi_def decimal_value_def digit_value_def is_digit_def)
  have w: "scanf_word (''>'' @ CHR 0x0A # ''-9223372036854775808'' @ CHR 0x0A # l @ [CHR 0x0A]) =
      (''>'', ''-9223372036854775808'' @ CHR 0x0A # l @ [CHR 0x0A])"
    by (rule scanf_word_line) (simp_all add: byte_def is_go_space_def)
  have r: "read_feature_line (l @ [CHR 0x0A]) = Inr (unmarshal_string_slice (l @ [CHR 0x0A]), [])"
    using read_feature_line_line [OF assms(3), of "[]"] by simp
  show ?thesis
    using count_setup_input [OF w t r] assms(1,2) by (simp add: unmarshal_json_file_def)
qed

lemma parse_op_word:
  "parse_op op = Some c \<Longrightarrow> op \<noteq> [] \<and> ascii op \<and> (\<forall>ch \<in> set op. \<not> is_go_space (byte ch))"
  by (auto simp: parse_op_def byte_def is_go_space_def split: if_splits)

lemma json_string_array_no_newline:
  assumes "\<forall>x \<in> set xs. printable x"
  shows "CHR 0x0A \<notin> set (json_string_array xs)"
proof -
  have q: "CHR 0x0A \<notin> set (json_quote x)" if "printable x" for x
    using that by (auto simp: json_quote_def json_escape_def printable_def byte_def split: if_splits)
  show ?thesis
    using assms q by (auto simp: json_string_array_def split: list.splits)
qed

lemma read_feature_line_json:
  assumes "\<forall>x \<in> set tags. printable x"
  shows "read_feature_line (json_string_array tags @ CHR 0x0A # rest) = Inr (tags, rest)"
proof -
  have "map string_slot (map JString tags) = tags" by (induction tags) simp_all
  then have "unmarshal_string_slice (json_string_array tags @ [CHR 0x0A]) = tags"
    using json_decode_string_array [OF assms] by (simp add: unmarshal_string_slice_def)
  then show ?thesis
    using read_feature_line_line [OF json_string_array_no_newline [OF assms]] by simp
qed

lemma comparison_setup_lines:
  assumes "fs ''inventories.json'' = Some d1" and "fs ''parses_cache.json'' = Some d2"
    and "parse_op op = Some c" and "\<forall>x \<in> set tags1. printable x" and "\<forall>x \<in> set tags2. printable x"
  shows "program_setup ComparisonQuery fs
      (op @ CHR 0x0A # json_string_array tags1 @ CHR 0x0A # json_string_array tags2 @ CHR 0x0A # rest)
    = Inr (unmarshal_string_map d1,
           \<lambda>es. comparison_query op tags1 tags2 es (map_of (unmarshal_string_map d2)))"
proof -
  have w: "scanf_word (op @ CHR 0x0A # json_string_array tags1 @ CHR 0x0A # json_string_array tags2 @ CHR 0x0A # rest)
      = (op, json_string_array tags1 @ CHR 0x0A # json_string_array tags2 @ CHR 0x0A # rest)"
    using parse_op_word [OF assms(3)] by (intro scanf_word_line) simp_all
  show ?thesis
    using assms(1,2) w read_feature_line_json [OF assms(4)] read_feature_line_json [OF assms(5)]
    by (simp add: comparison_setup_def unmarshal_json_file_def)
qed

lemma count_setup_lines:
  assumes "fs ''inventories.json'' = Some d1" and "fs ''parses_cache.json'' = Some d2"
    and "parse_op op = Some c" and "\<forall>x \<in> set tags. printable x"
  shows "program_setup CountQuery fs (op @ CHR 0x0A # format_int t @ CHR 0x0A # json_string_array tags @ CHR 0x0A # rest)
    = Inr (unmarshal_string_map d1, \<lambda>es. count_query op t tags es (map_of (unmarshal_string_map d2)))"
proof -
  have w: "scanf_word (op @ CHR 0x0A # format_int t @ CHR 0x0A # json_string_array tags @ CHR 0x0A # rest)
      = (op, format_int t @ CHR 0x0A # json_string_array tags @ CHR 0x0A # rest)"
    using parse_op_word [OF assms(3)] by (intro scanf_word_line) simp_all
  have r: "read_feature_line (json_string_array tags @ CHR 0x0A # rest) = Inr (tags, rest)"
    by (rule read_feature_line_json [OF assms(4)])
  show ?thesis
    using count_setup_input [OF w scanf_int_format_int r] assms(1,2)
    by (simp add: unmarshal_json_file_def)
qed

lemma phoneme_setup_lines:
  assumes "fs ''inventories.json'' = Some d" and "parse_op op = Some c"
    and "ph \<noteq> []" and "valid_utf8 ph"
    and "list_all (\<lambda>r. \<not> is_go_space (fst r)) (runes ph)"
    and "ends = [] \<or> ends = [CHR 0x0A]"
  shows "program_setup PhonemeQuery fs (op @ CHR 0x0A # format_int t @ CHR 0x0A # ph @ ends)
    = Inr (unmarshal_string_map d, \<lambda>es. phoneme_query op t ph es)"
proof -
  have w: "scanf_word (op @ CHR 0x0A # format_int t @ CHR 0x0A # ph @ ends)
      = (op, format_int t @ CHR 0x0A # ph @ ends)"
    using parse_op_word [OF assms(2)] by (intro scanf_word_line) simp_all
  have p: "fst (scanf_word (ph @ ends)) = ph" by (rule scanf_word_last [OF assms(3-6)])
  show ?thesis
    using assms(1) w p scanf_int_format_int [of t "ph @ ends"]
    by (simp add: phoneme_setup_def unmarshal_json_file_def split_def)
qed

subsection \<open>A worked example\<close>

lemma example_caches:
  "unmarshal_string_map ''{\"1\": [\"m\"], \"2\": [\"p\"]}'' = [(''1'', [''m'']), (''2'', [''p''])]"
  "unmarshal_string_map ''{\"m\": [\"nasal\"]}'' = [(''m'', [''nasal''])]"
  by code_simp+

lemma example_input:
  "scanf_word ''>=\<newline>0\<newline>[\"+nasal\"]\<newline>'' = (''>='', ''0\<newline>[\"+nasal\"]\<newline>'')"
  "scanf_int ''0\<newline>[\"+nasal\"]\<newline>'' = (0, ''[\"+nasal\"]\<newline>'')"
  "read_feature_line ''[\"+nasal\"]\<newline>'' = Inr ([''+nasal''], [])"
proof -
  show "scanf_word ''>=\<newline>0\<newline>[\"+nasal\"]\<newline>'' = (''>='', ''0\<newline>[\"+nasal\"]\<newline>'')"
    using scanf_word_line [of "''>=''" "''0\<newline>[\"+nasal\"]\<newline>''"] by (simp add: byte_def is_go_space_def)
  show "scanf_int ''0\<newline>[\"+nasal\"]\<newline>'' = (0, ''[\"+nasal\"]\<newline>'')"
    using scanf_int_line [of "[]" "''0''" "''[\"+nasal\"]\<newline>''"] by (simp add: atoi_def is_digit_def decimal_value_def digit_value_def)
  have "unmarshal_string_slice ''[\"+nasal\"]\<newline>'' = [''+nasal'']" by code_simp
  then show "read_feature_line ''[\"+nasal\"]\<newline>'' = Inr ([''+nasal''], [])"
    using read_feature_line_line [of "''[\"+nasal\"]''" "[]"] by simp
qed
lemma example_setup:
  "program_setup CountQuery
     [''inventories.json'' \<mapsto> ''{\"1\": [\"m\"], \"2\": [\"p\"]}'', ''parses_cache.json'' \<mapsto> ''{\"m\": [\"nasal\"]}'']
     ''>=\<newline>0\<newline>[\"+nasal\"]\<newline>''
   = Inr ([(''1'', [''m'']), (''2'', [''p''])],
          \<lambda>es. count_query ''>='' 0 [''+nasal''] es (map_of [(''m'', [''nasal''])]))"
  using count_setup_input [OF example_input] by (simp add: unmarshal_json_file_def example_caches)

lemma example_runs:
  "runs CountQuery
     [''inventories.json'' \<mapsto> ''{\"1\": [\"m\"], \"2\": [\"p\"]}'', ''parses_cache.json'' \<mapsto> ''{\"m\": [\"nasal\"]}'']
     ''>=\<newline>0\<newline>[\"+nasal\"]\<newline>'' (''[1,2]'' @ [CHR 0x0A])"
  "runs CountQuery
     [''inventories.json'' \<mapsto> ''{\"1\": [\"m\"], \"2\": [\"p\"]}'', ''parses_cache.json'' \<mapsto> ''{\"m\": [\"nasal\"]}'']
     ''>=\<newline>0\<newline>[\"+nasal\"]\<newline>'' (''[2,1]'' @ [CHR 0x0A])"
proof -
  have "print_result (count_query ''>='' 0 [''+nasal''] [(''1'', [''m'']), (''2'', [''p''])] (map_of [(''m'', [''nasal''])]))
      = ''[1,2]'' @ [CHR 0x0A]"
    "print_result (count_query ''>='' 0 [''+nasal''] [(''2'', [''p'']), (''1'', [''m''])] (map_of [(''m'', [''nasal''])]))
      = ''[2,1]'' @ [CHR 0x0A]"
    by code_simp+
  moreover have "mset [(''2'', [''p'']), (''1'', [''m''])] = mset [(''1'', [''m'']), (''2'', [''p''])]" by simp
  ultimately show "runs CountQuery
     [''inventories.json'' \<mapsto> ''{\"1\": [\"m\"], \"2\": [\"p\"]}'', ''parses_cache.json'' \<mapsto> ''{\"m\": [\"nasal\"]}'']
     ''>=\<newline>0\<newline>[\"+nasal\"]\<newline>'' (''[1,2]'' @ [CHR 0x0A])"
    "runs CountQuery
     [''inventories.json'' \<mapsto> ''{\"1\": [\"m\"], \"2\": [\"p\"]}'', ''parses_cache.json'' \<mapsto> ''{\"m\": [\"nasal\"]}'']
     ''>=\<newline>0\<newline>[\"+nasal\"]\<newline>'' (''[2,1]'' @ [CHR 0x0A])"
    using loop_done [OF example_setup] by metis+
qed

subsection \<open>Properties of the programs\<close>

text \<open>
  C28: two runs of the same program on the same files and input, which may visit the
  inventories map in different orders, either both print nothing or both print an
  array, and the arrays hold the same identifiers with the same multiplicities.
\<close>

theorem runs_agree_up_to_order:
  assumes "runs p fs stdin out1" and "runs p fs stdin out2"
  shows "(out1 = [] \<longleftrightarrow> out2 = [])
    \<and> map_option mset (decode_int_array (butlast out1))
      = map_option mset (decode_int_array (butlast out2))"
proof (cases "program_setup p fs stdin")
  case (Inl e)
  then show ?thesis using assms by (simp add: runs_setup_Inl)
next
  case (Inr r)
  then obtain invs loop where s: "program_setup p fs stdin = Inr (invs, loop)" by (cases r) auto
  from assms obtain es es' where "mset es = mset invs" "out1 = print_result (loop es)"
    "mset es' = mset invs" "out2 = print_result (loop es')"
    by (auto simp: runs_setup_Inr [OF s])
  then show ?thesis using same_outcome_print [OF setup_loop_perm [OF s, of es es']] by simp
qed

theorem runs_agree_up_to_order_witness:
  "(''[1,2]'' @ [CHR 0x0A] = [] \<longleftrightarrow> ''[2,1]'' @ [CHR 0x0A] = [])
   \<and> map_option mset (decode_int_array (butlast (''[1,2]'' @ [CHR 0x0A])))
     = map_option mset (decode_int_array (butlast (''[2,1]'' @ [CHR 0x0A])))"
  using runs_agree_up_to_order [OF example_runs] .

text \<open>
  C29: every identifier a run prints is the value \<open>strconv.Atoi\<close> gives to a key of
  \<open>inventories.json\<close>, as \<open>json.Unmarshal\<close> decoded that file.
\<close>

theorem printed_ids_are_inventory_keys:
  assumes "fs ''inventories.json'' = Some d" and "runs p fs stdin out"
    and "decode_int_array (butlast out) = Some xs"
  shows "\<forall>x \<in> set xs. \<exists>l \<in> fst ` set (unmarshal_string_map d). atoi l = Inr x"
proof (cases "program_setup p fs stdin")
  case (Inl e)
  then show ?thesis using assms by (simp add: runs_setup_Inl)
next
  case (Inr r)
  then obtain invs loop where s: "program_setup p fs stdin = Inr (invs, loop)" by (cases r) auto
  from assms(2) obtain es where es: "mset es = mset invs" and out: "out = print_result (loop es)"
    by (auto simp: runs_setup_Inr [OF s])
  obtain d' op where l: "\<forall>es. loop es = select_languages d' op es []" using setup_loop [OF s] by blast
  have invs: "invs = unmarshal_string_map d" using s assms(1) by (rule setup_inventories)
  have set_es: "set es = set invs" using es by (metis set_mset_mset)
  show ?thesis
  proof (cases "loop es")
    case (Inl e)
    then show ?thesis using assms(3) out by (simp add: print_result_def)
  next
    case (Inr ys)
    then have "xs = ys" using assms(3) out by (simp add: print_result_def decode_marshal)
    moreover have "\<forall>y \<in> set ys. \<exists>(l, i) \<in> set es. atoi l = Inr y"
      using Inr l select_languages_ids by metis
    ultimately show ?thesis using set_es invs by force
  qed
qed

theorem printed_ids_are_inventory_keys_witness:
  "(\<exists>l \<in> fst ` set (unmarshal_string_map ''{\"1\": [\"m\"], \"2\": [\"p\"]}''). atoi l = Inr 1)
   \<and> (\<exists>l \<in> fst ` set (unmarshal_string_map ''{\"1\": [\"m\"], \"2\": [\"p\"]}''). atoi l = Inr 2)"
proof -
  have "decode_int_array (butlast (''[1,2]'' @ [CHR 0x0A])) = Some [1, 2]" by code_simp
  then show ?thesis
    using printed_ids_are_inventory_keys [OF _ example_runs(1)] by simp
qed

text \<open>
  C30: the comparison and count queries read each feature line with
  \<open>ReadBytes('\n')\<close> and stop fatally when it ends without a newline: on an input
  with no newline at all they print nothing, whatever the files hold.
\<close>

theorem feature_line_needs_newline:
  assumes "CHR 0x0A \<notin> set stdin" and "p \<noteq> PhonemeQuery" and "runs p fs stdin out"
  shows "out = []"
proof -
  obtain e where "program_setup p fs stdin = Inl e"
    using setup_no_newline [OF assms(1,2), of fs] by (cases "program_setup p fs stdin") auto
  then show ?thesis using assms(3) by (simp add: runs_setup_Inl)
qed

theorem feature_line_needs_newline_witness:
  "{out. runs CountQuery [''inventories.json'' \<mapsto> ''{\"1\": [\"m\"], \"2\": [\"p\"]}'', ''parses_cache.json'' \<mapsto> ''{\"m\": [\"nasal\"]}'']
      ''>= 0 [\"+nasal\"]'' out} = {[]}"
proof -
  let ?fs = "[''inventories.json'' \<mapsto> ''{\"1\": [\"m\"], \"2\": [\"p\"]}'', ''parses_cache.json'' \<mapsto> ''{\"m\": [\"nasal\"]}'']"
  have "isl (program_setup CountQuery ?fs ''>= 0 [\"+nasal\"]'')"
    by (rule setup_no_newline) simp_all
  then obtain e where "program_setup CountQuery ?fs ''>= 0 [\"+nasal\"]'' = Inl e"
    by (cases "program_setup CountQuery ?fs ''>= 0 [\"+nasal\"]''") auto
  then have "runs CountQuery ?fs ''>= 0 [\"+nasal\"]'' (print_result (Inl e))" by (rule setup_fatal)
  then show ?thesis
    using feature_line_needs_newline [of "''>= 0 [\"+nasal\"]''" CountQuery ?fs]
    by (auto simp: print_result_def)
qed

text \<open>
  C31: \<open>json.Unmarshal\<close> errors are ignored, so a feature line that is not valid JSON
  leaves \<open>rawFeatures\<close> empty: the count query then runs exactly as if the line had
  been \<open>[]\<close>, the empty feature query that matches every segment, instead of failing.
\<close>

theorem malformed_feature_line_is_empty_query:
  assumes "w \<noteq> []" "ascii w" "\<forall>c \<in> set w. \<not> is_go_space (byte c)"
    and "CHR 0x0A \<notin> set l" and "json_decode (l @ [CHR 0x0A]) = None"
  shows "runs CountQuery fs (w @ CHR 0x0A # format_int t @ CHR 0x0A # l @ CHR 0x0A # rest) out
     \<longleftrightarrow> runs CountQuery fs (w @ CHR 0x0A # format_int t @ CHR 0x0A # ''[]'' @ CHR 0x0A # rest) out"
proof -
  have e: "unmarshal_string_slice (''[]'' @ [CHR 0x0A]) = []"
    using json_decode_string_array [of "[]"] by (simp add: json_string_array_def unmarshal_string_slice_def)
  have "count_setup fs (w @ CHR 0x0A # format_int t @ CHR 0x0A # l' @ CHR 0x0A # rest) =
    (case unmarshal_json_file fs ''inventories.json'' of
       Inl e \<Rightarrow> Inl e
     | Inr invs \<Rightarrow>
         (case unmarshal_json_file fs ''parses_cache.json'' of
            Inl e \<Rightarrow> Inl e
          | Inr parses \<Rightarrow> Inr (invs, \<lambda>es. count_query w t [] es (map_of parses))))"
    if "CHR 0x0A \<notin> set l'" "unmarshal_string_slice (l' @ [CHR 0x0A]) = []" for l'
  proof (rule count_setup_input)
    show "scanf_word (w @ CHR 0x0A # format_int t @ CHR 0x0A # l' @ CHR 0x0A # rest) =
        (w, format_int t @ CHR 0x0A # l' @ CHR 0x0A # rest)"
      using assms(1-3) by (rule scanf_word_line)
    show "scanf_int (format_int t @ CHR 0x0A # l' @ CHR 0x0A # rest) = (t, l' @ CHR 0x0A # rest)"
      by (rule scanf_int_format_int)
    show "read_feature_line (l' @ CHR 0x0A # rest) = Inr ([], rest)"
      using read_feature_line_line [OF that(1), of rest] that(2) by simp
  qed
  from this [of l] this [of "''[]''"] assms(4,5) e
  show ?thesis by (simp add: runs_simps unmarshal_string_slice_def)
qed

theorem malformed_feature_line_is_empty_query_witness:
  "runs CountQuery
      [''inventories.json'' \<mapsto> ''{\"1\": [\"m\"], \"2\": [\"p\"]}'', ''parses_cache.json'' \<mapsto> ''{\"m\": [\"nasal\"]}'']
      (''>='' @ CHR 0x0A # format_int 0 @ CHR 0x0A # ''[+nasal]'' @ [CHR 0x0A]) (''[1,2]'' @ [CHR 0x0A])
   \<longleftrightarrow> runs CountQuery
      [''inventories.json'' \<mapsto> ''{\"1\": [\"m\"], \"2\": [\"p\"]}'', ''parses_cache.json'' \<mapsto> ''{\"m\": [\"nasal\"]}'']
      (''>='' @ CHR 0x0A # format_int 0 @ CHR 0x0A # ''[]'' @ [CHR 0x0A]) (''[1,2]'' @ [CHR 0x0A])"
proof -
  have "json_decode (''[+nasal]'' @ [CHR 0x0A]) = None" by code_simp
  then show ?thesis
    using malformed_feature_line_is_empty_query [of "''>=''" "''[+nasal]''"]
    by (simp add: byte_def is_go_space_def)
qed

text \<open>
  C32: the wrap-around of C7 is reachable from standard input: \<open>Scanf\<close> reads the
  target line \<open>-9223372036854775808\<close> as \<open>math.MinInt64\<close>, and then the count
  query with \<open>>\<close> prints the empty array for every cache contents, although every
  count is greater than that target.
\<close>

theorem min_int_target_from_input_selects_nothing:
  assumes "fs ''inventories.json'' = Some d1" and "fs ''parses_cache.json'' = Some d2"
    and "CHR 0x0A \<notin> set l"
    and "\<forall>(k, i) \<in> set (unmarshal_string_map d1). length i < 2 ^ 63"
    and "runs CountQuery fs (''>'' @ CHR 0x0A # ''-9223372036854775808'' @ CHR 0x0A # l @ [CHR 0x0A]) out"
  shows "out = ''[]'' @ [CHR 0x0A]"
proof -
  let ?raw = "unmarshal_string_slice (l @ [CHR 0x0A])"
  let ?target = "word_of_int goint_min :: goint"
  have s: "program_setup CountQuery fs (''>'' @ CHR 0x0A # ''-9223372036854775808'' @ CHR 0x0A # l @ [CHR 0x0A])
      = Inr (unmarshal_string_map d1,
             \<lambda>es. count_query ''>'' ?target ?raw es (map_of (unmarshal_string_map d2)))"
    using count_setup_min_target [OF assms(1-3)] by simp
  from assms(5) obtain es where es: "mset es = mset (unmarshal_string_map d1)"
    and out: "out = print_result (count_query ''>'' ?target ?raw es (map_of (unmarshal_string_map d2)))"
    unfolding runs_setup_Inr [OF s] by blast
  have "\<forall>(l, i) \<in> set es. length i < 2 ^ 63" using assms(4) es by (metis set_mset_mset)
  then have "selected_entries (\<lambda>inventory. get_count_for_features p n inventory parses - ?target) OpGt es = []"
    for p n parses
    by (rule selected_entries_min_target_gt)
  moreover have "parse_op ''>'' = Some OpGt" by (simp add: parse_op_def)
  ultimately have "count_query ''>'' ?target ?raw es (map_of (unmarshal_string_map d2)) = Inr []"
    by (simp add: count_query_def select_languages_spec select_spec_def split_def Let_def)
  then show ?thesis using out by (simp add: print_result_def marshal_int_slice_def marshal_elems_def)
qed

theorem min_int_target_from_input_selects_nothing_witness:
  "{out. runs CountQuery [''inventories.json'' \<mapsto> ''{\"1\": [\"m\"], \"2\": [\"p\"]}'', ''parses_cache.json'' \<mapsto> ''{\"m\": [\"nasal\"]}'']
      (''>'' @ CHR 0x0A # ''-9223372036854775808'' @ CHR 0x0A # ''[\"+nasal\"]'' @ [CHR 0x0A]) out}
   = {''[]'' @ [CHR 0x0A]}"
proof -
  have f: "[''inventories.json'' \<mapsto> ''{\"1\": [\"m\"], \"2\": [\"p\"]}'', ''parses_cache.json'' \<mapsto> ''{\"m\": [\"nasal\"]}''] ''inventories.json'' = Some ''{\"1\": [\"m\"], \"2\": [\"p\"]}''"
    "[''inventories.json'' \<mapsto> ''{\"1\": [\"m\"], \"2\": [\"p\"]}'', ''parses_cache.json'' \<mapsto> ''{\"m\": [\"nasal\"]}''] ''parses_cache.json'' = Some ''{\"m\": [\"nasal\"]}''"
    "CHR 0x0A \<notin> set ''[\"+nasal\"]''"
    by simp_all
  obtain out0 where "runs CountQuery [''inventories.json'' \<mapsto> ''{\"1\": [\"m\"], \"2\": [\"p\"]}'', ''parses_cache.json'' \<mapsto> ''{\"m\": [\"nasal\"]}'']
      (''>'' @ CHR 0x0A # ''-9223372036854775808'' @ CHR 0x0A # ''[\"+nasal\"]'' @ [CHR 0x0A]) out0"
    using runs_with_loop_order [OF count_setup_min_target [OF f]] by blast
  moreover have "\<forall>(k, i) \<in> set (unmarshal_string_map ''{\"1\": [\"m\"], \"2\": [\"p\"]}''). length i < 2 ^ 63"
    by (simp add: example_caches)
  ultimately show ?thesis
    using min_int_target_from_input_selects_nothing [OF f] by blast
qed

text \<open>
  C33: the error of \<open>json.Unmarshal\<close> on \<open>inventories.json\<close> is ignored: when
  that file is not valid JSON the map stays empty, and every run that gets past its setup
  prints \<open>[]\<close> and exits normally, with no diagnostic, whatever the operator, target or
  query (an unknown operator included).
\<close>

theorem invalid_inventories_file_prints_empty:
  assumes "fs ''inventories.json'' = Some d" and "json_decode d = None"
    and "program_setup p fs stdin = Inr (invs, loop)" and "runs p fs stdin out"
  shows "out = ''[]'' @ [CHR 0x0A]"
proof -
  have "invs = []" using setup_inventories [OF assms(3,1)] assms(2) by (simp add: unmarshal_string_map_def)
  with assms(4) obtain es where "mset es = mset []" "out = print_result (loop es)"
    unfolding runs_setup_Inr [OF assms(3)] by blast
  then show ?thesis
    using setup_loop_empty [OF assms(3)] by (simp add: print_result_def marshal_int_slice_def marshal_elems_def)
qed

theorem invalid_inventories_file_prints_empty_witness:
  "{out. runs CountQuery [''inventories.json'' \<mapsto> ''{1: 2}'', ''parses_cache.json'' \<mapsto> ''{}'']
      (''!='' @ CHR 0x0A # ''0'' @ CHR 0x0A # ''[]'' @ [CHR 0x0A]) out}
   = {''[]'' @ [CHR 0x0A]}"
proof -
  have d: "json_decode ''{1: 2}'' = None" "unmarshal_string_map ''{1: 2}'' = []"
    "unmarshal_string_map ''{}'' = []" "unmarshal_string_slice (''[]'' @ [CHR 0x0A]) = []"
    by code_simp+
  have w: "scanf_word (''!='' @ CHR 0x0A # ''0'' @ CHR 0x0A # ''[]'' @ [CHR 0x0A]) = (''!='', ''0'' @ CHR 0x0A # ''[]'' @ [CHR 0x0A])"
    by (rule scanf_word_line) (simp_all add: byte_def is_go_space_def)
  have i: "scanf_int (''0'' @ CHR 0x0A # ''[]'' @ [CHR 0x0A]) = (0, ''[]'' @ [CHR 0x0A])"
    using scanf_int_line [of "[]" "''0''" "''[]'' @ [CHR 0x0A]"]
    by (simp add: atoi_def is_digit_def decimal_value_def digit_value_def)
  have r: "read_feature_line (''[]'' @ [CHR 0x0A]) = Inr ([], [])"
    using read_feature_line_line [of "''[]''" "[]"] d(4) by simp
  have s: "program_setup CountQuery [''inventories.json'' \<mapsto> ''{1: 2}'', ''parses_cache.json'' \<mapsto> ''{}'']
      (''!='' @ CHR 0x0A # ''0'' @ CHR 0x0A # ''[]'' @ [CHR 0x0A])
    = Inr ([], \<lambda>es. count_query ''!='' 0 [] es (map_of []))"
    using count_setup_input [OF w i r] by (simp add: unmarshal_json_file_def d)
  obtain out0 where "runs CountQuery [''inventories.json'' \<mapsto> ''{1: 2}'', ''parses_cache.json'' \<mapsto> ''{}'']
      (''!='' @ CHR 0x0A # ''0'' @ CHR 0x0A # ''[]'' @ [CHR 0x0A]) out0"
    using runs_with_loop_order [OF s] by blast
  moreover have "[''inventories.json'' \<mapsto> ''{1: 2}'', ''parses_cache.json'' \<mapsto> ''{}'']
      ''inventories.json'' = Some ''{1: 2}''" by simp
  ultimately show ?thesis
    using invalid_inventories_file_prints_empty [OF _ d(1) s] by blast
qed

text \<open>
  C19: end to end, the phoneme query computes what the spec asks for. On an
  \<open>inventories.json\<close> that decodes to a map with numeric identifiers, and on the input
  lines an operator, a target above \<open>math.MinInt64 + 1\<close> and a phoneme (any non-empty
  word of valid UTF-8 without a space rune, IPA symbols included, which is what
  \<open>%s\<close> can store at all (C25); with or without a final newline, since
  \<open>Scanf\<close> accepts the end of input there), every
  run prints an array that reads back as exactly the multiset of identifiers of the
  languages whose presence count of the phoneme (1 or 0) stands in the operator's relation
  to the target, as unbounded integers, whatever order Go visits the map in.
\<close>

theorem phoneme_query_end_to_end:
  assumes "fs ''inventories.json'' = Some d" and "parse_op op = Some c"
    and "ph \<noteq> []" and "valid_utf8 ph"
    and "list_all (\<lambda>r. \<not> is_go_space (fst r)) (runes ph)"
    and "ends = [] \<or> ends = [CHR 0x0A]"
    and "\<forall>(l, i) \<in> set (unmarshal_string_map d). \<not> isl (atoi l)" and "goint_min + 1 < sint t"
    and "runs PhonemeQuery fs (op @ CHR 0x0A # format_int t @ CHR 0x0A # ph @ ends) out"
  shows "map_option mset (decode_int_array (butlast out)) =
    Some (image_mset (\<lambda>(l, i). projr (atoi l))
      (filter_mset (\<lambda>(l, i). holds c ((if ph \<in> set i then 1 else 0) - sint t))
        (mset (unmarshal_string_map d))))"
proof -
  let ?sel = "\<lambda>(l, i). holds c ((if ph \<in> set i then 1 else 0) - sint t)"
  obtain es where es: "mset es = mset (unmarshal_string_map d)"
    and out: "out = print_result (phoneme_query op t ph es)"
    using assms(9) unfolding runs_setup_Inr [OF phoneme_setup_lines [of fs d op c ph ends t, OF assms(1-6)]] by blast
  have "set es = set (unmarshal_string_map d)" using es by (metis set_mset_mset)
  then have n: "\<forall>(l, i) \<in> set es. \<not> isl (atoi l)" using assms(7) by simp
  have "selected_entries (\<lambda>i. get_count_for_phoneme ph i - t) c es = filter ?sel es"
    using assms(8) by (intro selected_entries_cong) (auto simp only: sint_phoneme_minus_target)
  then have "phoneme_query op t ph es = Inr (map (\<lambda>(l, i). projr (atoi l)) (filter ?sel es))"
    using select_languages_all_numeric [OF assms(2) n] by (simp add: phoneme_query_def)
  then have "map_option mset (decode_int_array (butlast out)) =
      Some (mset (map (\<lambda>(l, i). projr (atoi l)) (filter ?sel es)))"
    using out by (simp add: print_result_def decode_marshal)
  also have "mset (map (\<lambda>(l, i). projr (atoi l)) (filter ?sel es))
      = image_mset (\<lambda>(l, i). projr (atoi l)) (filter_mset ?sel (mset es))"
    by (simp add: mset_filter)
  finally show ?thesis unfolding es .
qed

theorem phoneme_query_end_to_end_witness:
  "\<exists>out. runs PhonemeQuery
      [''inventories.json'' \<mapsto> ''{\"1\": [\"'' @ [char_of (0xC5 :: nat), char_of (0x8B :: nat)] @ ''\", \"t\"], \"2\": [\"t\"]}'']
      (''='' @ CHR 0x0A # format_int 0 @ CHR 0x0A # [char_of (0xC5 :: nat), char_of (0x8B :: nat)] @ []) out
    \<and> map_option mset (decode_int_array (butlast out)) =
      Some (image_mset (\<lambda>(l, i). projr (atoi l))
        (filter_mset (\<lambda>(l, i). holds OpEq
            ((if [char_of (0xC5 :: nat), char_of (0x8B :: nat)] \<in> set i then 1 else 0) - sint (0 :: goint)))
          (mset [(''1'', [[char_of (0xC5 :: nat), char_of (0x8B :: nat)], ''t'']), (''2'', [''t''])])))"
proof -
  let ?ng = "[char_of (0xC5 :: nat), char_of (0x8B :: nat)]"
  let ?d = "''{\"1\": [\"'' @ [char_of (0xC5 :: nat), char_of (0x8B :: nat)] @ ''\", \"t\"], \"2\": [\"t\"]}''"
  let ?fs = "[''inventories.json'' \<mapsto> ?d]"
  have m: "unmarshal_string_map ?d = [(''1'', [?ng, ''t'']), (''2'', [''t''])]"
    by code_simp
  have rn: "runes ?ng = [(0x14B, ?ng)]"
    by (simp add: runes_Cons decode_rune.simps(2) in_range_def byte_def)
  have h: "?fs ''inventories.json'' = Some ?d"
    "parse_op ''='' = Some OpEq" "?ng \<noteq> []" "valid_utf8 ?ng"
    "list_all (\<lambda>r. \<not> is_go_space (fst r)) (runes ?ng)" "[] = [] \<or> [] = [CHR 0x0A]"
    by (simp_all add: parse_op_def valid_utf8_def rn is_go_space_def)
  have ok: "\<forall>(l, i) \<in> set (unmarshal_string_map ?d). \<not> isl (atoi l)" "goint_min + 1 < sint (0 :: goint)"
    unfolding m by (simp_all add: query_eval_simps)
  obtain out where r: "runs PhonemeQuery ?fs (''='' @ CHR 0x0A # format_int 0 @ CHR 0x0A # ?ng @ []) out"
    using runs_with_loop_order [OF phoneme_setup_lines [of ?fs _ "''=''" OpEq ?ng "[]" 0, OF h]] by blast
  from phoneme_query_end_to_end [OF h ok r, unfolded m] r show ?thesis by blast
qed

text \<open>
  C18: end to end, the comparison query computes what the spec asks for. On caches that
  decode to maps with numeric identifiers and inventories shorter than \<open>2^63\<close>, and on
  the input lines an operator and two JSON arrays of printable tags, every run prints an
  array that reads back as exactly the multiset of identifiers of the languages whose two
  feature counts stand in the operator's relation, as unbounded integers, whatever order Go
  visits the map in.
\<close>

theorem comparison_query_end_to_end:
  assumes "fs ''inventories.json'' = Some d1" and "fs ''parses_cache.json'' = Some d2"
    and "parse_op op = Some c" and "\<forall>x \<in> set tags1. printable x" and "\<forall>x \<in> set tags2. printable x"
    and "read_one_set_of_features tags1 = (pos1, neg1)" and "read_one_set_of_features tags2 = (pos2, neg2)"
    and "\<forall>(l, i) \<in> set (unmarshal_string_map d1). \<not> isl (atoi l) \<and> length i < 2 ^ 63"
    and "runs ComparisonQuery fs
      (op @ CHR 0x0A # json_string_array tags1 @ CHR 0x0A # json_string_array tags2 @ CHR 0x0A # rest) out"
  shows "map_option mset (decode_int_array (butlast out)) =
    Some (image_mset (\<lambda>(l, i). projr (atoi l))
      (filter_mset (\<lambda>(l, i). holds c (int (count_matching pos1 neg1 i (map_of (unmarshal_string_map d2)))
                                      - int (count_matching pos2 neg2 i (map_of (unmarshal_string_map d2)))))
        (mset (unmarshal_string_map d1))))"
proof -
  let ?P = "map_of (unmarshal_string_map d2)"
  let ?sel = "\<lambda>(l, i). holds c (int (count_matching pos1 neg1 i ?P) - int (count_matching pos2 neg2 i ?P))"
  obtain es where es: "mset es = mset (unmarshal_string_map d1)"
    and out: "out = print_result (comparison_query op tags1 tags2 es ?P)"
    using assms(9) unfolding runs_setup_Inr [OF comparison_setup_lines [OF assms(1-5)]] by blast
  have "set es = set (unmarshal_string_map d1)" using es by (metis set_mset_mset)
  then have ok: "\<forall>(l, i) \<in> set es. \<not> isl (atoi l) \<and> length i < 2 ^ 63" using assms(8) by simp
  have d: "\<forall>(l, i) \<in> set es. sint (get_count_for_features pos1 neg1 i ?P - get_count_for_features pos2 neg2 i ?P)
      = int (count_matching pos1 neg1 i ?P) - int (count_matching pos2 neg2 i ?P)"
    using ok by (auto simp: sint_count_diff)
  have n: "\<forall>(l, i) \<in> set es. \<not> isl (atoi l)" using ok by blast
  have "comparison_query op tags1 tags2 es ?P = Inr (map (\<lambda>(l, i). projr (atoi l)) (filter ?sel es))"
    unfolding comparison_query_def assms(6,7) Let_def prod.case
    using select_languages_all_numeric [OF assms(3) n] selected_entries_cong [OF d] by simp
  then have "map_option mset (decode_int_array (butlast out)) =
      Some (mset (map (\<lambda>(l, i). projr (atoi l)) (filter ?sel es)))"
    using out by (simp add: print_result_def decode_marshal)
  also have "mset (map (\<lambda>(l, i). projr (atoi l)) (filter ?sel es))
      = image_mset (\<lambda>(l, i). projr (atoi l)) (filter_mset ?sel (mset es))"
    by (simp add: mset_filter)
  finally show ?thesis unfolding es .
qed

theorem comparison_query_end_to_end_witness:
  "\<exists>out. runs ComparisonQuery
      [''inventories.json'' \<mapsto> ''{\"1\": [\"m\"], \"2\": [\"p\"]}'', ''parses_cache.json'' \<mapsto> ''{\"m\": [\"nasal\"]}'']
      (''>'' @ CHR 0x0A # json_string_array [''+nasal''] @ CHR 0x0A # json_string_array [] @ CHR 0x0A # []) out
    \<and> map_option mset (decode_int_array (butlast out)) =
      Some (image_mset (\<lambda>(l, i). projr (atoi l))
        (filter_mset (\<lambda>(l, i). holds OpGt (int (count_matching [''nasal''] [] i (map_of [(''m'', [''nasal''])]))
                                        - int (count_matching [] [] i (map_of [(''m'', [''nasal''])]))))
          (mset [(''1'', [''m'']), (''2'', [''p''])])))"
proof -
  let ?fs = "[''inventories.json'' \<mapsto> ''{\"1\": [\"m\"], \"2\": [\"p\"]}'', ''parses_cache.json'' \<mapsto> ''{\"m\": [\"nasal\"]}'']"
  have h: "?fs ''inventories.json'' = Some ''{\"1\": [\"m\"], \"2\": [\"p\"]}''"
    "?fs ''parses_cache.json'' = Some ''{\"m\": [\"nasal\"]}''"
    "parse_op ''>'' = Some OpGt" "\<forall>x \<in> set [''+nasal'']. printable x" "\<forall>x \<in> set []. printable x"
    "read_one_set_of_features [''+nasal''] = ([''nasal''], [])" "read_one_set_of_features [] = ([], [])"
    by (simp_all add: query_eval_simps printable_def byte_def)
  have ok: "\<forall>(l, i) \<in> set (unmarshal_string_map ''{\"1\": [\"m\"], \"2\": [\"p\"]}''). \<not> isl (atoi l)
      \<and> length i < 2 ^ 63"
    by (simp add: example_caches query_eval_simps)
  obtain out where r: "runs ComparisonQuery ?fs
      (''>'' @ CHR 0x0A # json_string_array [''+nasal''] @ CHR 0x0A # json_string_array [] @ CHR 0x0A # []) out"
    using runs_with_loop_order [OF comparison_setup_lines [OF h(1-5)]] by blast
  show ?thesis
    using r comparison_query_end_to_end [OF h ok r] by (auto simp: example_caches)
qed

text \<open>
  C21: end to end, the count query computes what the spec asks for. On caches that
  decode to maps with numeric identifiers and inventories shorter than \<open>2^63\<close>, and on
  the input lines an operator, a target (with \<open>length - target\<close> within \<open>int\<close>) and
  a JSON array of printable tags, every run prints an array that reads back as exactly the
  multiset of identifiers of the languages whose number of matching segments stands in the
  operator's relation to the target, as unbounded integers, whatever order Go visits the
  map in.
\<close>

theorem count_query_end_to_end:
  assumes "fs ''inventories.json'' = Some d1" and "fs ''parses_cache.json'' = Some d2"
    and "parse_op op = Some c" and "\<forall>x \<in> set tags. printable x"
    and "initialise_features tags [] [] = (pos, neg)"
    and "\<forall>(l, i) \<in> set (unmarshal_string_map d1). \<not> isl (atoi l) \<and> length i < 2 ^ 63
           \<and> int (length i) - sint t \<le> goint_max"
    and "runs CountQuery fs (op @ CHR 0x0A # format_int t @ CHR 0x0A # json_string_array tags @ CHR 0x0A # rest) out"
  shows "map_option mset (decode_int_array (butlast out)) =
    Some (image_mset (\<lambda>(l, i). projr (atoi l))
      (filter_mset (\<lambda>(l, i). holds c (int (count_matching pos neg i (map_of (unmarshal_string_map d2))) - sint t))
        (mset (unmarshal_string_map d1))))"
proof -
  let ?P = "map_of (unmarshal_string_map d2)"
  let ?sel = "\<lambda>(l, i). holds c (int (count_matching pos neg i ?P) - sint t)"
  obtain es where es: "mset es = mset (unmarshal_string_map d1)"
    and out: "out = print_result (count_query op t tags es ?P)"
    using assms(7) unfolding runs_setup_Inr [OF count_setup_lines [OF assms(1-4)]] by blast
  have "set es = set (unmarshal_string_map d1)" using es by (metis set_mset_mset)
  then have ok: "\<forall>(l, i) \<in> set es. \<not> isl (atoi l) \<and> length i < 2 ^ 63 \<and> int (length i) - sint t \<le> goint_max"
    using assms(6) by simp
  have d: "\<forall>(l, i) \<in> set es. sint (get_count_for_features pos neg i ?P - t)
      = int (count_matching pos neg i ?P) - sint t"
  proof (intro ballI, clarify)
    fix l i assume "(l, i) \<in> set es"
    with ok show "sint (get_count_for_features pos neg i ?P - t) = int (count_matching pos neg i ?P) - sint t"
      by (blast intro: sint_count_minus_target)
  qed
  have n: "\<forall>(l, i) \<in> set es. \<not> isl (atoi l)" using ok by blast
  have "count_query op t tags es ?P = Inr (map (\<lambda>(l, i). projr (atoi l)) (filter ?sel es))"
    unfolding count_query_def assms(5) Let_def prod.case
    using select_languages_all_numeric [OF assms(3) n] selected_entries_cong [OF d] by simp
  then have "map_option mset (decode_int_array (butlast out)) =
      Some (mset (map (\<lambda>(l, i). projr (atoi l)) (filter ?sel es)))"
    using out by (simp add: print_result_def decode_marshal)
  also have "mset (map (\<lambda>(l, i). projr (atoi l)) (filter ?sel es))
      = image_mset (\<lambda>(l, i). projr (atoi l)) (filter_mset ?sel (mset es))"
    by (simp add: mset_filter)
  finally show ?thesis unfolding es .
qed

theorem count_query_end_to_end_witness:
  "map_option mset (decode_int_array (butlast (''[1,2]'' @ [CHR 0x0A]))) =
    Some (image_mset (\<lambda>(l, i). projr (atoi l))
      (filter_mset (\<lambda>(l, i). holds OpGe (int (count_matching [''nasal''] [] i (map_of [(''m'', [''nasal''])]))
                                       - sint (0 :: goint)))
        (mset [(''1'', [''m'']), (''2'', [''p''])])))"
proof -
  let ?fs = "[''inventories.json'' \<mapsto> ''{\"1\": [\"m\"], \"2\": [\"p\"]}'', ''parses_cache.json'' \<mapsto> ''{\"m\": [\"nasal\"]}'']"
  have i: "''>=\<newline>0\<newline>[\"+nasal\"]\<newline>''
      = ''>='' @ CHR 0x0A # format_int 0 @ CHR 0x0A # json_string_array [''+nasal''] @ CHR 0x0A # []"
    by code_simp
  have r: "runs CountQuery ?fs (''>='' @ CHR 0x0A # format_int 0 @ CHR 0x0A # json_string_array [''+nasal''] @ CHR 0x0A # [])
      (''[1,2]'' @ [CHR 0x0A])"
    using example_runs(1) unfolding i .
  have h: "?fs ''inventories.json'' = Some ''{\"1\": [\"m\"], \"2\": [\"p\"]}''"
    "?fs ''parses_cache.json'' = Some ''{\"m\": [\"nasal\"]}''"
    "parse_op ''>='' = Some OpGe" "\<forall>x \<in> set [''+nasal'']. printable x"
    "initialise_features [''+nasal''] [] [] = ([''nasal''], [])"
    by (simp_all add: query_eval_simps printable_def byte_def)
  have ok: "\<forall>(l, i) \<in> set (unmarshal_string_map ''{\"1\": [\"m\"], \"2\": [\"p\"]}''). \<not> isl (atoi l)
      \<and> length i < 2 ^ 63 \<and> int (length i) - sint (0 :: goint) \<le> goint_max"
    by (simp add: example_caches query_eval_simps)
  show ?thesis
    using count_query_end_to_end [OF h ok r] by (simp add: example_caches)
qed

end
