(* ===== verification/Spec2Isabelle.thy ===== *)
theory Spec2Isabelle
  imports Query Output Programs
begin

text \<open>
  \<^bold>\<open>Verification of eurphon-parse-search.\<close>

  \<^emph>\<open>The program.\<close> Three command-line programs answer queries over a corpus of
  phonological inventories. Each loads \<open>inventories.json\<close> (language identifier to
  list of segments) and, except the phoneme query, \<open>parses_cache.json\<close> (segment to
  list of distinctive features), reads an operator and its arguments from standard
  input, and prints the JSON array of the identifiers of the languages it selects.
  Their shared library is \<open>src/go_modules/featurecounts/featurecounts.go\<close>:
  \<open>InitialiseFeatures\<close> splits signed feature tags into a positive and a negative
  list, \<open>GetCountForFeatures\<close> (with \<open>contains\<close>) counts the segments of an
  inventory whose parse has all positive and no negative feature, \<open>CheckDiff\<close>
  compares a difference with zero under one of five operators.
  \<open>src/go_modules/comparisonquery/main.go\<close> selects on the difference of two
  feature counts, \<open>countquery/main.go\<close> on a feature count minus a target, and
  \<open>phonemequery/main.go\<close> (with \<open>getCountForPhoneme\<close>) on the presence of one
  phoneme minus a target. Data flows one way: tags to feature lists, to counts, to a
  difference, to \<open>CheckDiff\<close>, to \<open>strconv.Atoi\<close> of the selected identifier, to
  the printed array. The only state is the result slice of each loop.

  \<^emph>\<open>The theories.\<close>
  \<^item> \<open>Prelude\<close>: \<open>goint\<close> (Go's 64-bit \<open>int\<close> as \<open>64 word\<close>, read by
    \<open>sint\<close>), the model's type names, the \<open>fatal\<close> datatype of the
    \<open>log.Fatal\<close> paths of the programs, and the word/integer bridge lemmas (collection
    \<open>goint_bridge\<close>), among them the exact difference below \<open>MaxInt64\<close> and the
    wrapped one above it.
  \<^item> \<open>Features\<close>: \<open>initialise_features\<close> (\<open>InitialiseFeatures\<close>, lines 34-43),
    with \<open>trim_signs\<close> for \<open>strings.Trim(feature, "+-")\<close> (as Go computes it,
    trimming the right end, then the left) and \<open>has_prefix\<close> for
    \<open>strings.HasPrefix\<close>; \<open>read_one_set_of_features\<close> (\<open>readOneSetOfFeatures\<close>
    of the comparison query). Lemmas: the parser as filters and maps, every produced
    feature bare, no tag dropped, the roundtrip of a bare name through each sign.
  \<^item> \<open>Counting\<close>: \<open>contains\<close>, \<open>parse_of\<close> (a missing map key reads as the nil
    slice), the two early-exit inner loops \<open>skip_for_negative\<close> and
    \<open>skip_for_positive\<close>, the outer loop \<open>count_loop\<close> with its wrapping 64-bit
    counter, \<open>get_count_for_features\<close> (\<open>GetCountForFeatures\<close>, lines 80-113) and
    \<open>get_count_for_phoneme\<close> (\<open>getCountForPhoneme\<close>). The contract is
    \<open>segment_matches\<close> (all positive features in the parse, no negative one) and
    \<open>count_matching\<close>; the loops are proved equal to it.
  \<^item> \<open>Comparator\<close>: \<open>check_diff\<close> (\<open>CheckDiff\<close>, lines 47-64), refining the
    abstract \<open>cmp_op\<close>, \<open>parse_op\<close> and \<open>holds\<close> on unbounded integers.
  \<^item> \<open>Strconv\<close>: \<open>atoi\<close>, the semantics of \<open>strconv.Atoi\<close> as the programs call
    it on identifiers, and \<open>format_int\<close>, the decimal form \<open>json.Marshal\<close> prints;
    their roundtrip.
  \<^item> \<open>Query\<close>: \<open>select_languages\<close>, the selection loop the three \<open>main\<close>s share
    (difference, \<open>CheckDiff\<close>, \<open>Atoi\<close>, append), and its three instances
    \<open>comparison_query\<close>, \<open>count_query\<close> and \<open>phoneme_query\<close> (the bodies of the
    \<open>main\<close>s without their I/O). Its contract \<open>select_spec\<close> is proved equal to the
    loop; from it follow order independence, the exact selections when no difference
    wraps, the selections when one does, and the error paths.
  \<^item> \<open>Output\<close>: what a run writes to standard output: \<open>marshal_int_slice\<close>
    (\<open>json.Marshal(result)\<close> of the non-nil \<open>[]int\<close>) and \<open>print_result\<close>
    (\<open>fmt.Println\<close>, or nothing after \<open>log.Fatal\<close>), with the consumer's reading
    \<open>decode_int_array\<close>; the printed line reads back as the result slice.
  \<^item> \<open>Utf8\<close>: \<open>decode_rune\<close> and \<open>encode_rune\<close> (\<open>utf8.DecodeRune\<close>,
    \<open>utf8.EncodeRune\<close>) and \<open>runes\<close>, the runes Go reads from a byte string; the
    runes concatenate back to the input and every suffix of them is again a rune reading;
    encoding and decoding are inverse on Unicode scalar values and on the byte sequences
    \<open>DecodeRune\<close> accepts, \<open>valid_utf8\<close> (\<open>utf8.ValidString\<close>) is
    preserved by appending an encoded rune, and a valid string reads rune by rune
    whatever follows it, which is what lets \<open>Scanf\<close> read back any valid word.
  \<^item> \<open>Input\<close>: standard input as \<open>fmt.Scanf\<close> and \<open>bufio.Reader.ReadBytes\<close>
    consume it (\<open>skip_space\<close>, \<open>match_newline\<close>, \<open>scanf_word\<close> for \<open>%s\n\<close>,
    \<open>scanf_int\<close> for \<open>%d\n\<close>, \<open>read_bytes_line\<close>), each returning the value
    left in the variable and the unread input; what a read leaves is a suffix of what it
    was given, a target line written by \<open>format_int\<close> reads back exactly, and the
    word \<open>%s\<close> stores is valid UTF-8 without spaces (C25).
  \<^item> \<open>Json\<close>: \<open>json.Unmarshal\<close>: the validity check and reader \<open>json_decode\<close>
    (\<open>lex_string\<close> with Go's string unquoting, \<open>lex_number\<close>, the mutually recursive
    \<open>parse_value\<close>/\<open>parse_elements\<close>/\<open>parse_members\<close> with the nesting limit),
    and the decoding into \<open>[]string\<close> (\<open>unmarshal_string_slice\<close>) and into
    \<open>map[string][]string\<close> (\<open>unmarshal_string_map\<close>); the fuel lemmas and the
    roundtrip of a feature line written by \<open>json_string_array\<close>; every string the
    decoder stores is valid UTF-8 and a decoded map has distinct keys (C20).
  \<^item> \<open>Programs\<close>: \<open>unmarshal_json_file\<close> (\<open>UnmarshalJSONFile\<close>, lines 17-30
    of \<open>featurecounts.go\<close>), \<open>read_feature_line\<close>, the part of each \<open>main\<close>
    before its loop (\<open>comparison_setup\<close>, \<open>count_setup\<close>, \<open>phoneme_setup\<close>,
    \<open>program_setup\<close>) and the run relation \<open>runs\<close> from a file system and an
    input to the printed output. Lemmas: every program has a run, two runs agree up to
    the order of the printed identifiers, every printed identifier is a key of
    \<open>inventories.json\<close>, the input and file errors end to end, and, for each of
    the three programs, the refinement of its runs by the spec: on well-formed caches and
    input lines, the printed array reads back as exactly the multiset the spec's selection
    describes, as unbounded integers (C18, C19, C21).
  \<^item> this theory: the cross-component claim that a lone \<open>"+"\<close> tag, parsed by
    \<open>Features\<close>, makes the count of \<open>Counting\<close> zero.

  \<^emph>\<open>Modelling choices.\<close> A Go map is iterated in an unspecified order: the queries
  take the inventories as a list of entries in the order of one run, and the
  order-independence theorem quantifies over any two orders of one map (distinct keys,
  same \<open>map_of\<close>). Every \<open>log.Fatal\<close> is an \<open>Inl\<close>; since it stops the process
  before the array is printed, \<open>Inl\<close> is "no output". Counts are 64-bit words as in
  Go: the exactness theorems assume inventories shorter than \<open>2^63\<close> segments,
  which every real inventory is, and the count-query theorem assumes the target keeps
  \<open>length - target\<close> within \<open>int\<close>; these are the exact conditions under which
  no subtraction wraps. The loops of the
  core are structural recursions over finite lists. The JSON reader is the one recursion
  that is not: \<open>parse_value\<close> takes fuel, one unit per nested call, and every
  nested call is on a strictly shorter suffix of the input, so \<open>length s + 1\<close> units,
  the fuel \<open>json_decode\<close> gives it, are enough: any more fuel gives the same result
  (lemma \<open>parse_value_fuel_enough\<close>). Every definition is total and executable; the witnesses evaluate them with
  \<open>simp\<close> or \<open>code_simp\<close>.

  \<^emph>\<open>Not modelled.\<close> The file system is a map from names to contents: the
  errors of \<open>os.Open\<close> other than a missing file, and of \<open>Read\<close>, are not
  distinguished. Standard input is one string read to the end: an I/O error of
  \<open>os.Stdin\<close> is not modelled, and the \<open>%s\<close> verb is modelled at the level of
  runes, which for the pending bytes of a truncated UTF-8 sequence read by \<open>Scanf\<close>
  one at a time (an \<open>io.RuneScanner\<close> corner case) may differ; \<open>Scanf\<close>'s width
  limit (\<open>hugeWid\<close>) is never reached by a line of input the programs accept. The
  diagnostic \<open>log.Fatal\<close> writes to standard error and the exit status are not
  modelled beyond "fatal": \<open>Inl\<close> carries which check failed. Every statement of the four
  source files has a definition that translates it. The output lines the three
  \<open>main\<close>s share are mapped at their copy in the comparison query. Beyond those, the
  map leaves out only package clauses, imports and comments.

  \<^emph>\<open>Findings the theorems record.\<close> The count and phoneme queries compute
  \<open>count - target\<close> in 64-bit arithmetic, which wraps for targets near
  \<open>math.MinInt64\<close> (C7, C8). The operator is validated only inside the per-language
  loop, so an unknown operator is accepted on an empty map (C33). A non-numeric
  identifier is fatal only when its language is selected (C10). A tag that is empty
  after trimming is kept as the feature \<open>""\<close>, not dropped as the spec says, and a
  lone \<open>"+"\<close> makes the query match nothing (C13, C15, C16). Reading the input: an out-of-range target
  silently becomes 0 (C23); a feature line that is
  not valid JSON is the empty query (C31); a missing final newline is fatal
  for the comparison and count queries (C30); an invalid \<open>inventories.json\<close> is
  read as the empty map, so the run prints \<open>[]\<close> whatever the operator (C33); and the
  wrapping subtraction is reachable from the input line \<open>-9223372036854775808\<close> (C32).
\<close>

text \<open>
  C15: a lone \<open>"+"\<close> tag is not dropped: it becomes the positive feature \<open>""\<close>,
  which no real parse contains, so the query it forms counts no segment (where a
  dropped tag would have left the empty query, which counts every segment).
\<close>

theorem lone_plus_tag_counts_nothing:
  assumes "\<forall>s \<in> set inventory. [] \<notin> set (parse_of parses s)"
  shows "read_one_set_of_features [''+''] = ([[]], [])
    \<and> get_count_for_features (fst (read_one_set_of_features [''+'']))
        (snd (read_one_set_of_features [''+''])) inventory parses = 0"
proof -
  have r: "read_one_set_of_features [''+''] = ([[]], [])"
    by (simp add: read_one_set_of_features_def trim_defs is_sign_def)
  have "count_matching [[]] [] inventory parses = 0"
    using assms by (simp add: count_matching_def segment_matches_def filter_empty_conv)
  with r show ?thesis by (simp add: get_count_for_features_eq)
qed

theorem lone_plus_tag_counts_nothing_witness:
  "get_count_for_features (fst (read_one_set_of_features [''+'']))
     (snd (read_one_set_of_features [''+''])) [''m'', ''p''] [''m'' \<mapsto> [''nasal'']] = 0"
proof -
  have h: "\<forall>s \<in> set [''m'', ''p'']. [] \<notin> set (parse_of [''m'' \<mapsto> [''nasal'']] s)"
    by (simp add: parse_of_def)
  from lone_plus_tag_counts_nothing [OF h] show ?thesis by (rule conjunct2)
qed

end
